theory Spec2Isabelle
  imports Main "HOL-Library.AList" "HOL-Library.Multiset"
begin

section \<open>Edge-set codec\<close>

text \<open>
  A Go \<^verbatim>\<open>map[string]bool\<close> is modelled as an association list with pairwise distinct
  keys: \<^verbatim>\<open>make\<close> is the empty list, \<^verbatim>\<open>m[k] = v\<close> is \<open>AList.update\<close>,
  \<^verbatim>\<open>delete(m, k)\<close> is \<open>AList.delete\<close> and a lookup is \<open>map_of\<close>. Two such lists
  stand for the same Go map when their \<open>map_of\<close> agree.

  Go leaves the order of \<^verbatim>\<open>for k, v := range m\<close> unspecified. The order is a parameter
  \<open>ord\<close> of every function that ranges over a map: the loop visits the entries in the order
  \<open>ord m\<close>, which is some rearrangement of the entries of \<open>m\<close>.
\<close>

type_synonym edgeMap = "(string \<times> bool) list"

definition rangeOrder :: "(edgeMap \<Rightarrow> edgeMap) \<Rightarrow> bool" where
  "rangeOrder ord = (\<forall>m. mset (ord m) = mset m)"

text \<open>
  \<^verbatim>\<open>strings.Split(s, sep)\<close> of the Go standard library for a separator of one byte:
  the substrings of \<open>s\<close> between the separators, one more than there are separators.
\<close>

fun Split :: "string \<Rightarrow> char \<Rightarrow> string list" where
  "Split [] sep = [[]]"
| "Split (c # cs) sep =
     (if c = sep then [] # Split cs sep
      else (case Split cs sep of [] \<Rightarrow> [[c]] | x # xs \<Rightarrow> (c # x) # xs))"

definition SerializeEdgeMap :: "(edgeMap \<Rightarrow> edgeMap) \<Rightarrow> edgeMap \<Rightarrow> string" where
  "SerializeEdgeMap ord m =
     foldl (\<lambda>serializedMap (k, v). if v then serializedMap @ k @ ''|'' else serializedMap)
       [] (ord m)"

text \<open>
  The index \<^verbatim>\<open>len(slice)-1\<close> of the source is in range, since \<open>Split\<close> never returns the
  empty list (\<open>Split_not_Nil\<close> below); \<open>last\<close> is therefore the element the source reads.
\<close>

definition DeserializeEdgeMap :: "string \<Rightarrow> edgeMap" where
  "DeserializeEdgeMap serializedMap =
     (let slice = Split serializedMap (CHR ''|'');
          slice = (if last slice = [] then butlast slice else slice)
      in foldl (\<lambda>deserializedMap v. AList.update v True deserializedMap) [] slice)"

text \<open>The members of a map as a set: the keys whose flag is set.\<close>

definition members :: "edgeMap \<Rightarrow> string set" where
  "members m = {k. map_of m k = Some True}"

section \<open>The key-value engine\<close>

text \<open>
  Modelled from the spec: the engine (\<^verbatim>\<open>github.com/dgraph-io/badger/v4\<close>), an external
  collaborator whose code is not part of the repository. The types and operations of this
  section follow the capability contract of the specification (section 6).

  What the contract leaves to the engine is a parameter: a transaction carries the errors
  the engine will answer to its calls (\<open>Faults\<close>), so that every theorem below holds for
  every way in which the engine can fail, conflicts included.
\<close>

datatype error = ErrKeyNotFound | ErrConflict | EngineFailure string

record Faults =
  getFault :: "string \<Rightarrow> error option"
  valueFault :: "string \<Rightarrow> error option"
  setFault :: "string \<Rightarrow> string \<Rightarrow> error option"
  commitFault :: "error option"

record DB =
  store :: "string \<rightharpoonup> string"
  faults :: Faults

record Item =
  itemKey :: string
  itemValue :: string

record Txn =
  snapshot :: "string \<rightharpoonup> string"
  pendingWrites :: "(string \<times> string) list"
  readWrite :: bool
  txnFaults :: Faults

text \<open>
  Modelled from the spec: \<^verbatim>\<open>db.NewTransaction(update)\<close>, "begin a transaction in
  read-write or read-only mode"; the transaction observes the store as it is when it begins
  (snapshot isolation) and has staged nothing.
\<close>

definition NewTransaction :: "DB \<Rightarrow> bool \<Rightarrow> Txn" where
  "NewTransaction db upd =
     \<lparr>snapshot = store db, pendingWrites = [], readWrite = upd, txnFaults = faults db\<rparr>"

text \<open>
  Modelled from the spec: \<^verbatim>\<open>txn.Get(key)\<close>, "get(key) -> value or NotFound". A write
  staged in the transaction is visible to its own later reads, the latest one first;
  otherwise the snapshot answers.
\<close>

definition txn_Get :: "Txn \<Rightarrow> string \<Rightarrow> error + Item" where
  "txn_Get txn key =
     (case getFault (txnFaults txn) key of
        Some err \<Rightarrow> Inl err
      | None \<Rightarrow>
          (case map_of (rev (pendingWrites txn)) key of
             Some v \<Rightarrow> Inr \<lparr>itemKey = key, itemValue = v\<rparr>
           | None \<Rightarrow>
               (case snapshot txn key of
                  None \<Rightarrow> Inl ErrKeyNotFound
                | Some v \<Rightarrow> Inr \<lparr>itemKey = key, itemValue = v\<rparr>)))"

text \<open>Modelled from the spec: \<^verbatim>\<open>item.ValueCopy(nil)\<close>, the bytes of the item read, or an
  engine error.\<close>

definition item_ValueCopy :: "Txn \<Rightarrow> Item \<Rightarrow> error + string" where
  "item_ValueCopy txn item =
     (case valueFault (txnFaults txn) (itemKey item) of
        Some err \<Rightarrow> Inl err
      | None \<Rightarrow> Inr (itemValue item))"

text \<open>
  Modelled from the spec: \<^verbatim>\<open>txn.Set(key, value)\<close>, "set(key, value) (write-only visible
  within the transaction until commit)". Every call that succeeds stages one write; a
  read-only transaction stages none.
\<close>

definition txn_Set :: "Txn \<Rightarrow> string \<Rightarrow> string \<Rightarrow> error + Txn" where
  "txn_Set txn key val =
     (if \<not> readWrite txn then Inl (EngineFailure ''read-only transaction'')
      else (case setFault (txnFaults txn) key val of
              Some err \<Rightarrow> Inl err
            | None \<Rightarrow> Inr (txn\<lparr>pendingWrites := pendingWrites txn @ [(key, val)]\<rparr>)))"

text \<open>
  Modelled from the spec: \<^verbatim>\<open>txn.Commit()\<close>, "commit() -> success or Conflict or other
  error". A commit that succeeds applies the staged writes to the store, later writes over
  earlier ones; a commit that fails applies none. A transaction with no write set cannot
  conflict (section 4.4).
\<close>

definition txn_Commit :: "DB \<Rightarrow> Txn \<Rightarrow> error option \<times> DB" where
  "txn_Commit db txn =
     (case commitFault (txnFaults txn) of
        Some err \<Rightarrow>
          if err = ErrConflict \<and> pendingWrites txn = [] then (None, db) else (Some err, db)
      | None \<Rightarrow> (None, db\<lparr>store := store db ++ map_of (rev (pendingWrites txn))\<rparr>))"

section \<open>Graph store\<close>

text \<open>
  The \<^verbatim>\<open>*Graph\<close> receiver is its database handle \<open>db\<close>. A \<^verbatim>\<open>nil\<close> transaction is
  \<open>None\<close>. Each operation returns, with its Go results, the database after the call and
  the caller's transaction after the call (the pointer's target; \<open>None\<close> when the caller
  passed \<^verbatim>\<open>nil\<close>). The deferred \<^verbatim>\<open>txn.Discard()\<close> of a transaction the call opened
  itself drops that transaction, which nothing refers to afterwards.
\<close>

definition AddEdge ::
  "(edgeMap \<Rightarrow> edgeMap) \<Rightarrow> DB \<Rightarrow> string \<Rightarrow> string \<Rightarrow> Txn option \<Rightarrow> error option \<times> DB \<times> Txn option"
where
  "AddEdge ord db from to txn =
     (let localTxn = (txn = None);
          txn0 = (case txn of None \<Rightarrow> NewTransaction db True | Some t \<Rightarrow> t)
      in case (case txn_Get txn0 from of
                 Inl err \<Rightarrow> if err = ErrKeyNotFound then Inr [] else Inl err
               | Inr item \<Rightarrow>
                   (case item_ValueCopy txn0 item of
                      Inl err \<Rightarrow> Inl err
                    | Inr valCopy \<Rightarrow> Inr (DeserializeEdgeMap valCopy))) of
           Inl err \<Rightarrow> (Some err, db, txn)
         | Inr dstNodes \<Rightarrow>
             (let dstNodes = AList.update to True dstNodes
              in case txn_Set txn0 from (SerializeEdgeMap ord dstNodes) of
                   Inl err \<Rightarrow> (Some err, db, txn)
                 | Inr txn1 \<Rightarrow>
                     if localTxn then
                       (case txn_Commit db txn1 of
                          (Some err, db') \<Rightarrow> (Some err, db', None)
                        | (None, db') \<Rightarrow> (None, db', None))
                     else (None, db, Some txn1)))"

definition RemoveEdge ::
  "(edgeMap \<Rightarrow> edgeMap) \<Rightarrow> DB \<Rightarrow> string \<Rightarrow> string \<Rightarrow> Txn option \<Rightarrow> error option \<times> DB \<times> Txn option"
where
  "RemoveEdge ord db from to txn =
     (let localTxn = (txn = None);
          txn0 = (case txn of None \<Rightarrow> NewTransaction db True | Some t \<Rightarrow> t)
      in case txn_Get txn0 from of
           Inl err \<Rightarrow> (Some err, db, txn)
         | Inr item \<Rightarrow>
             (case item_ValueCopy txn0 item of
                Inl err \<Rightarrow> (Some err, db, txn)
              | Inr valCopy \<Rightarrow>
                  (let dstNodes = AList.delete to (DeserializeEdgeMap valCopy)
                   in case txn_Set txn0 from (SerializeEdgeMap ord dstNodes) of
                        Inl err \<Rightarrow> (Some err, db, txn)
                      | Inr txn1 \<Rightarrow>
                          if localTxn then
                            (case txn_Commit db txn1 of
                               (Some err, db') \<Rightarrow> (Some err, db', None)
                             | (None, db') \<Rightarrow> (None, db', None))
                          else (None, db, Some txn1))))"

text \<open>
  \<open>GetEdges\<close> stages nothing, so the caller's transaction is as it was; the result is the
  pair the Go function returns (\<open>None\<close> for the \<^verbatim>\<open>nil\<close> map) and the database after the
  call.
\<close>

definition GetEdges ::
  "DB \<Rightarrow> string \<Rightarrow> Txn option \<Rightarrow> (edgeMap option \<times> error option) \<times> DB"
where
  "GetEdges db from txn =
     (let localTxn = (txn = None);
          txn0 = (case txn of None \<Rightarrow> NewTransaction db False | Some t \<Rightarrow> t)
      in case txn_Get txn0 from of
           Inl err \<Rightarrow> ((None, Some err), db)
         | Inr item \<Rightarrow>
             (case (if localTxn then txn_Commit db txn0 else (None, db)) of
                (Some err, db') \<Rightarrow> ((None, Some err), db')
              | (None, db') \<Rightarrow>
                  (case item_ValueCopy txn0 item of
                     Inl err \<Rightarrow> ((None, Some err), db')
                   | Inr valCopy \<Rightarrow> ((Some (DeserializeEdgeMap valCopy), None), db'))))"

section \<open>Notions used in the statements\<close>

text \<open>
  The transaction an operation works in: the caller's, or one it opens on the database
  (the scoping rule at the head of the three operations).
\<close>

definition scope :: "DB \<Rightarrow> Txn option \<Rightarrow> bool \<Rightarrow> Txn" where
  "scope db txn upd = (case txn of None \<Rightarrow> NewTransaction db upd | Some t \<Rightarrow> t)"

text \<open>The destination set a transaction reads for a source node: empty when the read finds
  no item.\<close>

definition edgesRead :: "Txn \<Rightarrow> string \<Rightarrow> edgeMap" where
  "edgesRead txn from =
     (case txn_Get txn from of Inl err \<Rightarrow> [] | Inr item \<Rightarrow> DeserializeEdgeMap (itemValue item))"

text \<open>The store as a transaction sees it: its snapshot under its own staged writes.\<close>

definition txnView :: "Txn \<Rightarrow> string \<rightharpoonup> string" where
  "txnView t = snapshot t ++ map_of (rev (pendingWrites t))"

text \<open>Two results of \<open>GetEdges\<close> are the same when they carry the same error and the same
  map (the entries of a Go map have no order).\<close>

definition sameEdges ::
  "edgeMap option \<times> error option \<Rightarrow> edgeMap option \<times> error option \<Rightarrow> bool" where
  "sameEdges r r' = (snd r = snd r' \<and> map_option map_of (fst r) = map_option map_of (fst r'))"

text \<open>An engine that answers no error of its own.\<close>

definition noFaults :: Faults where
  "noFaults = \<lparr>getFault = (\<lambda>k. None), valueFault = (\<lambda>k. None),
                setFault = (\<lambda>k v. None), commitFault = None\<rparr>"

text \<open>A store with no record on an engine without faults, as \<^verbatim>\<open>NewGraph("", true)\<close> opens
  one in memory.\<close>

definition emptyDB :: DB where
  "emptyDB = \<lparr>store = Map.empty, faults = noFaults\<rparr>"

section \<open>The conflict-retry loops of main\<close>

text \<open>
  The two goroutines of \<^verbatim>\<open>main\<close> are the same code, for the edges \<^verbatim>\<open>("a", "b")\<close> and
  \<^verbatim>\<open>("c", "e")\<close>; \<open>retryWorker\<close> is that code for an edge \<open>(from, to)\<close>. The other
  goroutine is the environment: \<open>world k\<close> is the database as the transaction number \<open>k\<close>
  of this goroutine finds it when it opens (numbered from 0), with the errors the engine
  will answer to that transaction, a conflict at its commit among them.

  The model returns the final values of \<^verbatim>\<open>err\<close> and \<^verbatim>\<open>i\<close> and the calls made, in order.
  The errors that the source drops (of \<open>RemoveEdge\<close> and \<open>GetEdges\<close>) are kept in the
  trace. The calls of \<^verbatim>\<open>defer txn1.Discard()\<close> run when the goroutine returns, the last
  deferred first.
\<close>

datatype event =
    NewTransaction_called nat
  | RemoveEdge_called nat "error option"
  | GetEdges_called nat "edgeMap option \<times> error option"
  | Println_neighbors "edgeMap option"
  | Commit_called nat "error option"
  | Println_retry nat
  | Println_error error
  | Discard_called nat

text \<open>The transaction behind the pointer \<^verbatim>\<open>txn1\<close> after a call that was given it.\<close>

definition deref :: "Txn \<Rightarrow> Txn option \<Rightarrow> Txn" where
  "deref txn r = (case r of Some txn' \<Rightarrow> txn' | None \<Rightarrow> txn)"

function retryLoop ::
  "(edgeMap \<Rightarrow> edgeMap) \<Rightarrow> (nat \<Rightarrow> DB) \<Rightarrow> string \<Rightarrow> string \<Rightarrow> nat \<Rightarrow> error option
     \<Rightarrow> error option \<times> nat \<times> event list"
where
  "retryLoop ord world from to i err =
     (if err = Some ErrConflict \<and> i < 10 then
        (let txn1 = NewTransaction (world i) True;
             removed = RemoveEdge ord (world i) from to (Some txn1);
             txn1 = deref txn1 (snd (snd removed));
             err = fst (txn_Commit (fst (snd removed)) txn1);
             rest = retryLoop ord world from to (i + 1) err
         in (fst rest, fst (snd rest),
             [Println_retry i, NewTransaction_called i, RemoveEdge_called i (fst removed),
              Commit_called i err] @ snd (snd rest)))
      else (err, i, []))"
  by pat_completeness auto
termination
  by (relation "measure (\<lambda>(ord, world, from, to, i, err). 10 - i)") auto

declare retryLoop.simps [simp del]

definition retryWorker ::
  "(edgeMap \<Rightarrow> edgeMap) \<Rightarrow> (nat \<Rightarrow> DB) \<Rightarrow> string \<Rightarrow> string
     \<Rightarrow> error option \<times> nat \<times> event list"
where
  "retryWorker ord world from to =
     (let txn1 = NewTransaction (world 0) True;
          removed = RemoveEdge ord (world 0) from to (Some txn1);
          txn1 = deref txn1 (snd (snd removed));
          a_n = GetEdges (fst (snd removed)) from (Some txn1);
          i = 1;
          err = fst (txn_Commit (snd a_n) txn1);
          rest = retryLoop ord world from to i err
      in (fst rest, fst (snd rest),
          [NewTransaction_called 0, RemoveEdge_called 0 (fst removed),
           GetEdges_called 0 (fst a_n), Println_neighbors (fst (fst a_n)),
           Commit_called 0 err]
          @ snd (snd rest)
          @ (case fst rest of None \<Rightarrow> [] | Some e \<Rightarrow> [Println_error e])
          @ map Discard_called (rev [0..<fst (snd rest)])))"

text \<open>
  What one transaction of the discipline does when it re-executes the mutation alone: it
  opens on the database of the moment, removes the edge in it and commits. The pair is the
  error of \<open>RemoveEdge\<close> and the error of the commit.
\<close>

definition attempt ::
  "(edgeMap \<Rightarrow> edgeMap) \<Rightarrow> (nat \<Rightarrow> DB) \<Rightarrow> string \<Rightarrow> string \<Rightarrow> nat \<Rightarrow> error option \<times> error option"
where
  "attempt ord world from to k =
     (let txn1 = NewTransaction (world k) True;
          removed = RemoveEdge ord (world k) from to (Some txn1)
      in (fst removed, fst (txn_Commit (fst (snd removed)) (deref txn1 (snd (snd removed))))))"

text \<open>The result of the read that follows the mutation in the first transaction.\<close>

definition firstRead ::
  "(edgeMap \<Rightarrow> edgeMap) \<Rightarrow> (nat \<Rightarrow> DB) \<Rightarrow> string \<Rightarrow> string \<Rightarrow> edgeMap option \<times> error option"
where
  "firstRead ord world from to =
     (let txn1 = NewTransaction (world 0) True;
          removed = RemoveEdge ord (world 0) from to (Some txn1)
      in fst (GetEdges (fst (snd removed)) from (Some (deref txn1 (snd (snd removed))))))"

definition retryEvents ::
  "(edgeMap \<Rightarrow> edgeMap) \<Rightarrow> (nat \<Rightarrow> DB) \<Rightarrow> string \<Rightarrow> string \<Rightarrow> nat \<Rightarrow> event list"
where
  "retryEvents ord world from to k =
     [Println_retry k, NewTransaction_called k,
      RemoveEdge_called k (fst (attempt ord world from to k)),
      Commit_called k (snd (attempt ord world from to k))]"

text \<open>The graph operations called in the transaction number \<open>k\<close>, in order.\<close>

datatype operation = OpRemoveEdge | OpGetEdges

fun steps :: "nat \<Rightarrow> event list \<Rightarrow> operation list" where
  "steps k [] = []"
| "steps k (RemoveEdge_called j e # evs) =
     (if j = k then OpRemoveEdge # steps k evs else steps k evs)"
| "steps k (GetEdges_called j r # evs) =
     (if j = k then OpGetEdges # steps k evs else steps k evs)"
| "steps k (ev # evs) = steps k evs"

text \<open>A database in which \<open>a\<close> has the edges to \<open>b\<close> and \<open>c\<close>, and one whose engine answers
  a conflict to a commit.\<close>

definition graphDB :: DB where
  "graphDB = \<lparr>store = [''a'' \<mapsto> ''b|c|''], faults = noFaults\<rparr>"

definition contendedDB :: DB where
  "contendedDB = \<lparr>store = [''a'' \<mapsto> ''b|c|''],
                   faults = noFaults\<lparr>commitFault := Some ErrConflict\<rparr>\<rparr>"

text \<open>Two environments: one in which only the first commit conflicts, and one in which
  every commit does.\<close>

definition contendedOnce :: "nat \<Rightarrow> DB" where
  "contendedOnce k = (if k = 0 then contendedDB else graphDB)"

definition contendedAlways :: "nat \<Rightarrow> DB" where
  "contendedAlways k = contendedDB"

section \<open>Codec lemmas\<close>

lemma Split_not_Nil: "Split s sep \<noteq> []"
  by (induction s) (auto split: list.splits)

lemma Split_append_sep: "Split (a @ sep # r) sep = Split a sep @ Split r sep"
proof (induction a)
  case Nil
  show ?case by simp
next
  case (Cons c a)
  obtain x xs where sp: "Split a sep = x # xs"
    using Split_not_Nil [of a sep] by (cases "Split a sep") auto
  show ?case using Cons sp by simp
qed

lemma Split_no_sep: "sep \<notin> set s \<Longrightarrow> Split s sep = [s]"
  by (induction s) auto

lemma Split_segments_no_sep: "x \<in> set (Split s sep) \<Longrightarrow> sep \<notin> set x"
proof (induction s arbitrary: x)
  case Nil
  then show ?case by simp
next
  case (Cons c s)
  obtain y ys where sp: "Split s sep = y # ys"
    using Split_not_Nil [of s sep] by (cases "Split s sep") auto
  show ?case
  proof (cases "c = sep")
    case True
    with Cons show ?thesis by auto
  next
    case False
    with Cons.prems sp have "x = c # y \<or> x \<in> set ys" by auto
    then show ?thesis
    proof
      assume "x = c # y"
      moreover have "sep \<notin> set y" using Cons.IH [of y] sp by simp
      ultimately show ?thesis using False by auto
    next
      assume "x \<in> set ys"
      then show ?thesis using Cons.IH [of x] sp by simp
    qed
  qed
qed

text \<open>The fields the decoder keeps: every segment but a trailing empty one.\<close>

definition fields :: "string \<Rightarrow> string list" where
  "fields s = (let slice = Split s (CHR ''|'') in if last slice = [] then butlast slice else slice)"

lemma foldl_update_keys:
  "fst ` set (foldl (\<lambda>m v. AList.update v True m) acc vs) = fst ` set acc \<union> set vs"
  by (induction vs arbitrary: acc) (auto simp: AList.dom_update)

lemma foldl_update_distinct:
  "distinct (map fst acc) \<Longrightarrow> distinct (map fst (foldl (\<lambda>m v. AList.update v True m) acc vs))"
  by (induction vs arbitrary: acc) (auto simp: AList.distinct_update)

lemma foldl_update_map_of:
  "map_of (foldl (\<lambda>m v. AList.update v True m) acc vs) k =
     (if k \<in> set vs then Some True else map_of acc k)"
  by (induction vs arbitrary: acc) (auto simp: AList.update_conv')

lemma DeserializeEdgeMap_fields:
  "DeserializeEdgeMap s = foldl (\<lambda>m v. AList.update v True m) [] (fields s)"
  by (simp add: DeserializeEdgeMap_def fields_def Let_def)

lemma map_of_Deserialize:
  "map_of (DeserializeEdgeMap s) k = (if k \<in> set (fields s) then Some True else None)"
  by (simp add: DeserializeEdgeMap_fields foldl_update_map_of)

lemma keys_Deserialize: "fst ` set (DeserializeEdgeMap s) = set (fields s)"
  by (simp add: DeserializeEdgeMap_fields foldl_update_keys)

lemma distinct_Deserialize: "distinct (map fst (DeserializeEdgeMap s))"
  by (simp add: DeserializeEdgeMap_fields foldl_update_distinct)

lemma values_Deserialize: "(k, v) \<in> set (DeserializeEdgeMap s) \<Longrightarrow> v"
proof -
  assume a: "(k, v) \<in> set (DeserializeEdgeMap s)"
  then have "map_of (DeserializeEdgeMap s) k = Some v"
    using distinct_Deserialize [of s] by simp
  then show v by (simp add: map_of_Deserialize split: if_splits)
qed

lemma fields_no_sep: "x \<in> set (fields s) \<Longrightarrow> CHR ''|'' \<notin> set x"
  using Split_segments_no_sep [of x s "CHR ''|''"]
  by (auto simp: fields_def Let_def split: if_splits dest: in_set_butlastD)

text \<open>The encoder's output: every flagged key, in the order visited, followed by the delimiter.\<close>

definition encode_keys :: "string list \<Rightarrow> string" where
  "encode_keys ks = concat (map (\<lambda>k. k @ ''|'') ks)"

definition flagged :: "edgeMap \<Rightarrow> string list" where
  "flagged m = map fst (filter snd m)"

lemma foldl_Serialize:
  "foldl (\<lambda>s (k, v). if v then s @ k @ ''|'' else s) acc xs = acc @ encode_keys (flagged xs)"
  by (induction xs arbitrary: acc) (auto simp: encode_keys_def flagged_def)

lemma Serialize_encode: "SerializeEdgeMap ord m = encode_keys (flagged (ord m))"
  by (simp add: SerializeEdgeMap_def foldl_Serialize)

lemma Split_encode_keys:
  "Split (encode_keys ks) (CHR ''|'') = concat (map (\<lambda>k. Split k (CHR ''|'')) ks) @ [[]]"
proof (induction ks)
  case Nil
  show ?case by (simp add: encode_keys_def)
next
  case (Cons k ks)
  have "encode_keys (k # ks) = k @ CHR ''|'' # encode_keys ks"
    by (simp add: encode_keys_def)
  then show ?case using Cons by (simp add: Split_append_sep)
qed

lemma fields_encode_keys:
  "fields (encode_keys ks) = concat (map (\<lambda>k. Split k (CHR ''|'')) ks)"
  by (simp add: fields_def Split_encode_keys)

lemma fields_encode_keys_clean:
  "\<forall>k\<in>set ks. CHR ''|'' \<notin> set k \<Longrightarrow> fields (encode_keys ks) = ks"
  by (induction ks) (simp_all add: fields_encode_keys Split_no_sep)

lemma rangeOrder_set: "rangeOrder ord \<Longrightarrow> set (ord m) = set m"
  unfolding rangeOrder_def by (metis set_mset_mset)

lemma rangeOrder_Nil: "rangeOrder ord \<Longrightarrow> ord [] = []"
  unfolding rangeOrder_def by (metis mset_zero_iff)

lemma rangeOrder_single: "rangeOrder ord \<Longrightarrow> ord [x] = [x]"
  unfolding rangeOrder_def by (metis mset_single_iff_right)

lemma rangeOrder_distinct:
  "rangeOrder ord \<Longrightarrow> distinct (map fst m) \<Longrightarrow> distinct (map fst (ord m))"
proof -
  assume ro: "rangeOrder ord" and d: "distinct (map fst m)"
  have "mset (map fst (ord m)) = mset (map fst m)"
    using ro unfolding rangeOrder_def by (metis mset_map)
  then show ?thesis using d by (metis mset_eq_imp_distinct_iff)
qed

lemma set_flagged: "set (flagged m) = {k. (k, True) \<in> set m}"
  by (auto simp: flagged_def image_iff)

lemma flagged_all: "\<forall>(k, v)\<in>set m. v \<Longrightarrow> flagged m = map fst m"
proof -
  assume "\<forall>(k, v)\<in>set m. v"
  then have "filter snd m = m" by (induction m) auto
  then show ?thesis by (simp add: flagged_def)
qed

lemma distinct_flagged: "distinct (map fst m) \<Longrightarrow> distinct (flagged m)"
  unfolding flagged_def by (simp add: distinct_map_filter)

lemma members_set: "distinct (map fst m) \<Longrightarrow> members m = {k. (k, True) \<in> set m}"
  by (auto simp: members_def)

lemma Deserialize_Serialize:
  assumes ro: "rangeOrder ord"
    and d: "distinct (map fst s)"
    and c: "\<forall>(k, v)\<in>set s. v \<and> CHR ''|'' \<notin> set k"
  shows "map_of (DeserializeEdgeMap (SerializeEdgeMap ord s)) = map_of s"
proof
  fix k
  have st: "set (ord s) = set s" using ro by (rule rangeOrder_set)
  have "\<forall>(k, v)\<in>set (ord s). v" using c st by auto
  then have fl: "flagged (ord s) = map fst (ord s)" by (rule flagged_all)
  have "\<forall>k\<in>set (map fst (ord s)). CHR ''|'' \<notin> set k" using c st by auto
  then have fi: "fields (SerializeEdgeMap ord s) = map fst (ord s)"
    by (simp add: Serialize_encode fl fields_encode_keys_clean)
  show "map_of (DeserializeEdgeMap (SerializeEdgeMap ord s)) k = map_of s k"
  proof (cases "k \<in> fst ` set s")
    case True
    then obtain v where kv: "(k, v) \<in> set s" by auto
    then have v using c by auto
    then have "map_of s k = Some True" using kv d by simp
    then show ?thesis using True by (simp add: map_of_Deserialize fi st)
  next
    case False
    then have "map_of s k = None" by (simp add: map_of_eq_None_iff)
    then show ?thesis using False by (simp add: map_of_Deserialize fi st)
  qed
qed

section \<open>Codec theorems\<close>

text \<open>
  C1. Codec round trip: for every finite set \<open>s\<close> of identifiers none of which contains the
  delimiter byte, given as a map whose entries are all flagged, decoding the encoding of
  \<open>s\<close> gives \<open>s\<close> again, whatever the order in which the encoder visits the entries. The
  encoding of the empty set is the empty byte sequence, and the empty byte sequence decodes
  to the empty set.
\<close>

theorem codec_round_trip:
  assumes ro: "rangeOrder ord"
    and d: "distinct (map fst s)"
    and c: "\<forall>(k, v)\<in>set s. v \<and> CHR ''|'' \<notin> set k"
  shows "map_of (DeserializeEdgeMap (SerializeEdgeMap ord s)) = map_of s
       \<and> members (DeserializeEdgeMap (SerializeEdgeMap ord s)) = members s
       \<and> SerializeEdgeMap ord [] = []
       \<and> DeserializeEdgeMap [] = []"
proof -
  have rt: "map_of (DeserializeEdgeMap (SerializeEdgeMap ord s)) = map_of s"
    using ro d c by (rule Deserialize_Serialize)
  have e1: "SerializeEdgeMap ord [] = []"
    by (simp add: SerializeEdgeMap_def rangeOrder_Nil [OF ro])
  have e2: "DeserializeEdgeMap [] = []"
    by (simp add: DeserializeEdgeMap_def)
  show ?thesis using rt e1 e2 by (simp add: members_def)
qed

theorem codec_round_trip_witness:
  "rangeOrder rev \<and> distinct (map fst [(''b'', True), (''c'', True)])
   \<and> CHR ''|'' \<notin> set ''b'' \<and> CHR ''|'' \<notin> set ''c''
   \<and> SerializeEdgeMap rev [(''b'', True), (''c'', True)] = ''c|b|''
   \<and> DeserializeEdgeMap ''c|b|'' = [(''c'', True), (''b'', True)]
   \<and> map_of (DeserializeEdgeMap (SerializeEdgeMap rev [(''b'', True), (''c'', True)]))
       = map_of [(''b'', True), (''c'', True)]"
proof -
  have ro: "rangeOrder rev" by (simp add: rangeOrder_def)
  have d: "distinct (map fst [(''b'', True), (''c'', True)])" by simp
  have c: "\<forall>(k, v)\<in>set [(''b'', True), (''c'', True)]. v \<and> CHR ''|'' \<notin> set k" by simp
  have s: "SerializeEdgeMap rev [(''b'', True), (''c'', True)] = ''c|b|''"
    by (simp add: SerializeEdgeMap_def)
  have ds: "DeserializeEdgeMap ''c|b|'' = [(''c'', True), (''b'', True)]"
    by (simp add: DeserializeEdgeMap_def)
  show ?thesis using codec_round_trip [OF ro d c] ro d c s ds by simp
qed

section \<open>Graph store lemmas\<close>

lemma txn_Get_scope: "txn_Get (scope db txn upd) k = txn_Get (scope db txn True) k"
  by (simp add: scope_def txn_Get_def NewTransaction_def split: option.splits)

lemma item_ValueCopy_scope:
  "item_ValueCopy (scope db txn upd) item = item_ValueCopy (scope db txn True) item"
  by (simp add: scope_def item_ValueCopy_def NewTransaction_def split: option.splits)

lemma txn_Get_item: "txn_Get t k = Inr item \<Longrightarrow> itemKey item = k"
  by (auto simp: txn_Get_def split: option.splits)

lemma Serialize_single: "rangeOrder ord \<Longrightarrow> SerializeEdgeMap ord [(k, True)] = k @ ''|''"
  by (simp add: SerializeEdgeMap_def rangeOrder_single)

lemma commit_single:
  "txn_Commit db (NewTransaction db True\<lparr>pendingWrites := [(k, v)]\<rparr>) = (e, db')
   \<Longrightarrow> e = None \<Longrightarrow> db' = db\<lparr>store := (store db)(k \<mapsto> v)\<rparr>"
  by (auto simp: txn_Commit_def NewTransaction_def split: option.splits if_splits)

lemma set_update_subset: "set (AList.update k v m) \<subseteq> insert (k, v) (set m)"
  by (induction m) auto

lemma set_delete_subset: "set (AList.delete k m) \<subseteq> set m"
  by (auto simp: AList.delete_eq)

lemma members_Deserialize: "members (DeserializeEdgeMap s) = fst ` set (DeserializeEdgeMap s)"
  by (auto simp: members_def map_of_Deserialize keys_Deserialize)

lemma distinct_edgesRead: "distinct (map fst (edgesRead t k))"
  by (simp add: edgesRead_def distinct_Deserialize split: sum.splits)

lemma values_edgesRead: "(a, b) \<in> set (edgesRead t k) \<Longrightarrow> b"
  by (auto simp: edgesRead_def split: sum.splits dest: values_Deserialize)

lemma members_edgesRead: "members (edgesRead t k) = fst ` set (edgesRead t k)"
proof (cases "txn_Get t k")
  case (Inl err)
  then show ?thesis by (simp add: edgesRead_def members_def)
next
  case (Inr item)
  then show ?thesis by (simp add: edgesRead_def members_Deserialize)
qed

lemma keys_edgesRead_no_sep: "x \<in> fst ` set (edgesRead t k) \<Longrightarrow> CHR ''|'' \<notin> set x"
proof (cases "txn_Get t k")
  case (Inl err)
  assume "x \<in> fst ` set (edgesRead t k)"
  then show ?thesis using Inl by (simp add: edgesRead_def)
next
  case (Inr item)
  assume "x \<in> fst ` set (edgesRead t k)"
  then have "x \<in> set (fields (itemValue item))"
    using Inr by (simp add: edgesRead_def keys_Deserialize)
  then show ?thesis by (rule fields_no_sep)
qed

text \<open>The encoding of a map whose entries are all flagged lists every key once.\<close>

lemma Serialize_all_flagged:
  assumes ro: "rangeOrder ord" and d: "distinct (map fst m)" and f: "\<forall>(k, v)\<in>set m. v"
  shows "SerializeEdgeMap ord m = encode_keys (map fst (ord m))
       \<and> distinct (map fst (ord m)) \<and> set (map fst (ord m)) = fst ` set m"
proof -
  have st: "set (ord m) = set m" using ro by (rule rangeOrder_set)
  have "\<forall>(k, v)\<in>set (ord m). v" using f st by auto
  then have "flagged (ord m) = map fst (ord m)" by (rule flagged_all)
  then show ?thesis
    using rangeOrder_distinct [OF ro d] st by (simp add: Serialize_encode)
qed

lemma members_Deserialize_encode:
  "members (DeserializeEdgeMap (encode_keys ks)) = (\<Union>k\<in>set ks. set (Split k (CHR ''|'')))"
  by (simp add: members_Deserialize keys_Deserialize fields_encode_keys)

lemma map_of_all_flagged:
  assumes "distinct (map fst m)" and "\<forall>(k, v)\<in>set m. v"
  shows "map_of m k = (if k \<in> fst ` set m then Some True else None)"
proof (cases "k \<in> fst ` set m")
  case True
  then obtain v where kv: "(k, v) \<in> set m" by auto
  then have v using assms(2) by auto
  then show ?thesis using kv assms(1) True by simp
next
  case False
  then show ?thesis by (simp add: map_of_eq_None_iff)
qed

text \<open>What a successful call has done, in terms of the set it read.\<close>

lemma AddEdge_success:
  assumes "AddEdge ord db from to txn = (None, db', txn')"
  shows "case txn of
           Some t \<Rightarrow> db' = db \<and> txn' = Some (t\<lparr>pendingWrites := pendingWrites t @
               [(from, SerializeEdgeMap ord (AList.update to True (edgesRead t from)))]\<rparr>)
                 \<and> readWrite t
         | None \<Rightarrow> txn' = None \<and> db' = db\<lparr>store := (store db)(from \<mapsto>
               SerializeEdgeMap ord
                 (AList.update to True (edgesRead (NewTransaction db True) from)))\<rparr>"
  using assms
  by (auto simp: AddEdge_def edgesRead_def txn_Set_def txn_Commit_def item_ValueCopy_def
        NewTransaction_def Let_def
      split: option.splits sum.splits if_splits prod.splits)

lemma RemoveEdge_success:
  assumes "RemoveEdge ord db from to txn = (None, db', txn')"
  shows "(\<exists>item. txn_Get (scope db txn True) from = Inr item)
       \<and> (case txn of
           Some t \<Rightarrow> db' = db \<and> txn' = Some (t\<lparr>pendingWrites := pendingWrites t @
               [(from, SerializeEdgeMap ord (AList.delete to (edgesRead t from)))]\<rparr>)
                 \<and> readWrite t
         | None \<Rightarrow> txn' = None \<and> db' = db\<lparr>store := (store db)(from \<mapsto>
               SerializeEdgeMap ord
                 (AList.delete to (edgesRead (NewTransaction db True) from)))\<rparr>)"
  using assms
  by (auto simp: RemoveEdge_def edgesRead_def txn_Set_def txn_Commit_def item_ValueCopy_def
        NewTransaction_def scope_def Let_def
      split: option.splits sum.splits if_splits prod.splits)

lemma GetEdges_db: "snd (GetEdges db from txn) = db"
  by (auto simp: GetEdges_def txn_Commit_def NewTransaction_def Let_def
      split: option.splits sum.splits prod.splits if_splits)

lemma GetEdges_success:
  assumes "GetEdges db from txn = ((Some m, e), db')"
  shows "e = None \<and> m = edgesRead (scope db txn True) from
       \<and> (\<exists>item. txn_Get (scope db txn True) from = Inr item)"
proof -
  have "txn_Get (scope db txn False) from = txn_Get (scope db txn True) from"
    by (rule txn_Get_scope)
  then show ?thesis
    using assms
    by (auto simp: GetEdges_def edgesRead_def scope_def item_ValueCopy_def Let_def
        split: option.splits sum.splits prod.splits if_splits)
qed

lemma txn_Get_view:
  "txn_Get t k =
     (case getFault (txnFaults t) k of
        Some err \<Rightarrow> Inl err
      | None \<Rightarrow> (case txnView t k of
                   None \<Rightarrow> Inl ErrKeyNotFound
                 | Some v \<Rightarrow> Inr \<lparr>itemKey = k, itemValue = v\<rparr>))"
  by (simp add: txn_Get_def txnView_def map_add_def split: option.splits)

lemma txnView_staged:
  "txnView (t\<lparr>pendingWrites := pendingWrites t @ [(k, v)]\<rparr>) = (txnView t)(k \<mapsto> v)"
  by (simp add: txnView_def)

lemma txnView_NewTransaction: "txnView (NewTransaction db upd) = store db"
  by (simp add: txnView_def NewTransaction_def)

lemma AddEdge_failure:
  "AddEdge ord db from to txn = (Some e, db', txn') \<Longrightarrow> db' = db \<and> txn' = txn"
  by (auto simp: AddEdge_def txn_Commit_def Let_def
      split: option.splits sum.splits if_splits prod.splits)

lemma RemoveEdge_failure:
  "RemoveEdge ord db from to txn = (Some e, db', txn') \<Longrightarrow> db' = db \<and> txn' = txn"
  by (auto simp: RemoveEdge_def txn_Commit_def Let_def
      split: option.splits sum.splits if_splits prod.splits)

text \<open>A successful call seen through the transaction's view of the store.\<close>

lemma txnFaults_NewTransaction: "txnFaults (NewTransaction db upd) = faults db"
  by (simp add: NewTransaction_def)

lemma AddEdge_local_commit:
  "AddEdge ord db from to None = (None, db', txn') \<Longrightarrow> commitFault (faults db) = None"
  by (auto simp: AddEdge_def txn_Commit_def txn_Set_def NewTransaction_def Let_def
      split: option.splits sum.splits if_splits prod.splits)

lemma RemoveEdge_local_commit:
  "RemoveEdge ord db from to None = (None, db', txn') \<Longrightarrow> commitFault (faults db) = None"
  by (auto simp: RemoveEdge_def txn_Commit_def txn_Set_def NewTransaction_def Let_def
      split: option.splits sum.splits if_splits prod.splits)

lemma AddEdge_view:
  assumes "AddEdge ord db from to txn = (None, db', txn')"
  shows "txnView (scope db' txn' True) = (txnView (scope db txn True))(from \<mapsto>
           SerializeEdgeMap ord (AList.update to True (edgesRead (scope db txn True) from)))
       \<and> txnFaults (scope db' txn' True) = txnFaults (scope db txn True)
       \<and> (txn' = None) = (txn = None)
       \<and> (txn = None \<longrightarrow> commitFault (faults db) = None)"
proof (cases txn)
  case None
  then show ?thesis
    using AddEdge_success [OF assms] AddEdge_local_commit [of ord db "from" to db' txn'] assms
    by (simp add: scope_def txnView_NewTransaction txnFaults_NewTransaction)
next
  case (Some t)
  then show ?thesis
    using AddEdge_success [OF assms] by (simp add: scope_def txnView_staged)
qed

lemma RemoveEdge_view:
  assumes "RemoveEdge ord db from to txn = (None, db', txn')"
  shows "txnView (scope db' txn' True) = (txnView (scope db txn True))(from \<mapsto>
           SerializeEdgeMap ord (AList.delete to (edgesRead (scope db txn True) from)))
       \<and> txnFaults (scope db' txn' True) = txnFaults (scope db txn True)
       \<and> (txn' = None) = (txn = None)
       \<and> (txn = None \<longrightarrow> commitFault (faults db) = None)"
proof (cases txn)
  case None
  then show ?thesis
    using RemoveEdge_success [OF assms] RemoveEdge_local_commit [of ord db "from" to db' txn']
      assms
    by (simp add: scope_def txnView_NewTransaction txnFaults_NewTransaction)
next
  case (Some t)
  then show ?thesis
    using RemoveEdge_success [OF assms] by (simp add: scope_def txnView_staged)
qed

text \<open>The result of \<open>GetEdges\<close> is a function of the view at the key and of the faults.\<close>

lemma GetEdges_view:
  "fst (GetEdges db from txn) =
     (case getFault (txnFaults (scope db txn True)) from of
        Some err \<Rightarrow> (None, Some err)
      | None \<Rightarrow>
         (case txnView (scope db txn True) from of
            None \<Rightarrow> (None, Some ErrKeyNotFound)
          | Some v \<Rightarrow>
              (case (if txn = None
                     then (case commitFault (txnFaults (scope db txn True)) of
                             None \<Rightarrow> None
                           | Some err \<Rightarrow> if err = ErrConflict then None else Some err)
                     else None) of
                 Some err \<Rightarrow> (None, Some err)
               | None \<Rightarrow>
                   (case valueFault (txnFaults (scope db txn True)) from of
                      Some err \<Rightarrow> (None, Some err)
                    | None \<Rightarrow> (Some (DeserializeEdgeMap v), None)))))"
proof (cases txn)
  case None
  have pw: "pendingWrites (NewTransaction db False) = []"
    by (simp add: NewTransaction_def)
  show ?thesis
    using None
    by (simp add: GetEdges_def txn_Get_view scope_def Let_def item_ValueCopy_def
          txn_Commit_def txnView_NewTransaction txnFaults_NewTransaction pw
        split: option.splits)
next
  case (Some t)
  then show ?thesis
    by (simp add: GetEdges_def txn_Get_view scope_def Let_def item_ValueCopy_def
        split: option.splits)
qed

lemma edgesRead_view:
  "edgesRead t k =
     (case getFault (txnFaults t) k of
        Some err \<Rightarrow> []
      | None \<Rightarrow> (case txnView t k of None \<Rightarrow> [] | Some v \<Rightarrow> DeserializeEdgeMap v))"
  by (simp add: edgesRead_def txn_Get_view split: option.splits)

lemma sameEdges_refl: "sameEdges r r"
  by (simp add: sameEdges_def)

lemma GetEdges_same:
  assumes f: "txnFaults (scope db2 txn2 True) = txnFaults (scope db1 txn1 True)"
    and n: "(txn2 = None) = (txn1 = None)"
    and v: "getFault (txnFaults (scope db1 txn1 True)) a \<noteq> None
          \<or> (\<exists>v1 v2. txnView (scope db1 txn1 True) a = Some v1
                     \<and> txnView (scope db2 txn2 True) a = Some v2
                     \<and> map_of (DeserializeEdgeMap v2) = map_of (DeserializeEdgeMap v1))"
  shows "sameEdges (fst (GetEdges db2 a txn2)) (fst (GetEdges db1 a txn1))"
  using v
proof
  assume "getFault (txnFaults (scope db1 txn1 True)) a \<noteq> None"
  then show ?thesis
    by (auto simp: GetEdges_view f sameEdges_def)
next
  assume "\<exists>v1 v2. txnView (scope db1 txn1 True) a = Some v1
                     \<and> txnView (scope db2 txn2 True) a = Some v2
                     \<and> map_of (DeserializeEdgeMap v2) = map_of (DeserializeEdgeMap v1)"
  then obtain v1 v2 where v1: "txnView (scope db1 txn1 True) a = Some v1"
    and v2: "txnView (scope db2 txn2 True) a = Some v2"
    and eq: "map_of (DeserializeEdgeMap v2) = map_of (DeserializeEdgeMap v1)"
    by blast
  define F where "F = txnFaults (scope db1 txn1 True)"
  have f1: "txnFaults (scope db1 txn1 True) = F" and f2: "txnFaults (scope db2 txn2 True) = F"
    using f by (simp_all add: F_def)
  show ?thesis
  proof (cases "txn1 = None")
    case True
    then have "txn2 = None" using n by simp
    then show ?thesis
      unfolding GetEdges_view f1 f2 v1 v2 sameEdges_def using True eq
      by (simp split: option.splits)
  next
    case False
    then obtain t1 t2 where "txn1 = Some t1" and "txn2 = Some t2" using n by auto
    then show ?thesis
      unfolding GetEdges_view f1 f2 v1 v2 sameEdges_def using eq
      by (simp split: option.splits)
  qed
qed

text \<open>Adding again a member that has been encoded changes nothing in the decoded set.\<close>

lemma readd_same:
  assumes ro: "rangeOrder ord" and b: "b \<in> set ks1"
  shows "map_of (DeserializeEdgeMap
           (SerializeEdgeMap ord (AList.update b True (DeserializeEdgeMap (encode_keys ks1)))))
         = map_of (DeserializeEdgeMap (encode_keys ks1))"
proof -
  define M1 where "M1 = DeserializeEdgeMap (encode_keys ks1)"
  define m where "m = AList.update b True M1"
  define ks2 where "ks2 = map fst (ord m)"
  have d: "distinct (map fst m)"
    unfolding m_def M1_def by (simp add: AList.distinct_update distinct_Deserialize)
  have f: "\<forall>(k, v)\<in>set m. v"
    using set_update_subset [of b True M1] values_Deserialize
    unfolding m_def M1_def by fastforce
  have k1: "fst ` set M1 = set (fields (encode_keys ks1))"
    unfolding M1_def by (rule keys_Deserialize)
  have enc: "SerializeEdgeMap ord m = encode_keys ks2"
    and sk: "set ks2 = insert b (set (fields (encode_keys ks1)))"
    using Serialize_all_flagged [OF ro d f] k1
    by (simp_all add: ks2_def m_def AList.dom_update)
  have sb: "set (Split b (CHR ''|'')) \<subseteq> set (fields (encode_keys ks1))"
    using b by (auto simp: fields_encode_keys)
  have cl: "\<And>k. k \<in> set (fields (encode_keys ks1)) \<Longrightarrow> Split k (CHR ''|'') = [k]"
    using fields_no_sep Split_no_sep by blast
  have "set (fields (encode_keys ks2)) = (\<Union>k\<in>set ks2. set (Split k (CHR ''|'')))"
    by (simp add: fields_encode_keys)
  also have "\<dots> = set (Split b (CHR ''|''))
                  \<union> (\<Union>k\<in>set (fields (encode_keys ks1)). set (Split k (CHR ''|'')))"
    by (simp add: sk)
  also have "\<dots> = set (Split b (CHR ''|'')) \<union> set (fields (encode_keys ks1))"
    using cl by auto
  also have "\<dots> = set (fields (encode_keys ks1))" using sb by auto
  finally have "set (fields (encode_keys ks2)) = set (fields (encode_keys ks1))" .
  then have "map_of (DeserializeEdgeMap (encode_keys ks2)) = map_of M1"
    unfolding M1_def by (auto simp: map_of_Deserialize)
  then show ?thesis using enc by (simp add: m_def M1_def)
qed

section \<open>Graph store theorems\<close>

text \<open>
  C2. For a source node with no adjacency record (the transaction's read answers that the
  key is not found), \<open>RemoveEdge\<close> and \<open>GetEdges\<close> fail with that error, change nothing
  and return no set. \<open>AddEdge\<close> does not fail for this reason: it goes on as from the empty
  destination set, staging the encoding of the singleton of \<open>to\<close> and committing it when it
  owns the transaction; on an engine without faults it succeeds.
\<close>

theorem no_record_NotFound:
  assumes ro: "rangeOrder ord"
    and nf: "txn_Get (scope db txn True) from = Inl ErrKeyNotFound"
  shows "RemoveEdge ord db from to txn = (Some ErrKeyNotFound, db, txn)
       \<and> GetEdges db from txn = ((None, Some ErrKeyNotFound), db)
       \<and> AddEdge ord db from to txn =
           (case txn_Set (scope db txn True) from (to @ ''|'') of
              Inl err \<Rightarrow> (Some err, db, txn)
            | Inr txn1 \<Rightarrow>
                if txn = None
                then (case txn_Commit db txn1 of (e, db') \<Rightarrow> (e, db', None))
                else (None, db, Some txn1))
       \<and> (readWrite (scope db txn True) \<and> txnFaults (scope db txn True) = noFaults
            \<longrightarrow> fst (AddEdge ord db from to txn) = None)"
proof -
  have r: "RemoveEdge ord db from to txn = (Some ErrKeyNotFound, db, txn)"
    using nf by (simp add: RemoveEdge_def scope_def)
  have nf': "txn_Get (scope db txn False) from = Inl ErrKeyNotFound"
    using nf txn_Get_scope [of db txn False "from"] by simp
  have g: "GetEdges db from txn = ((None, Some ErrKeyNotFound), db)"
    using nf' by (simp add: GetEdges_def scope_def)
  have a: "AddEdge ord db from to txn =
           (case txn_Set (scope db txn True) from (to @ ''|'') of
              Inl err \<Rightarrow> (Some err, db, txn)
            | Inr txn1 \<Rightarrow>
                if txn = None
                then (case txn_Commit db txn1 of (e, db') \<Rightarrow> (e, db', None))
                else (None, db, Some txn1))"
    using nf
    by (auto simp: AddEdge_def scope_def Serialize_single [OF ro]
        split: sum.splits option.splits prod.splits)
  have s: "readWrite (scope db txn True) \<and> txnFaults (scope db txn True) = noFaults
            \<longrightarrow> fst (AddEdge ord db from to txn) = None"
    unfolding a
    by (auto simp: txn_Set_def txn_Commit_def noFaults_def split: option.splits)
  show ?thesis using r g a s by blast
qed

theorem no_record_NotFound_witness:
  "rangeOrder id
   \<and> txn_Get (scope emptyDB None True) ''z'' = Inl ErrKeyNotFound
   \<and> RemoveEdge id emptyDB ''z'' ''y'' None = (Some ErrKeyNotFound, emptyDB, None)
   \<and> GetEdges emptyDB ''z'' None = ((None, Some ErrKeyNotFound), emptyDB)
   \<and> fst (AddEdge id emptyDB ''z'' ''y'' None) = None"
proof -
  have ro: "rangeOrder id" by (simp add: rangeOrder_def)
  have nf: "txn_Get (scope emptyDB None True) ''z'' = Inl ErrKeyNotFound"
    by (simp add: txn_Get_def scope_def NewTransaction_def emptyDB_def noFaults_def)
  have rw: "readWrite (scope emptyDB None True) \<and> txnFaults (scope emptyDB None True) = noFaults"
    by (simp add: scope_def NewTransaction_def emptyDB_def)
  show ?thesis using no_record_NotFound [OF ro nf, of "''y''"] ro nf rw by blast
qed

text \<open>
  C8. If the read of the record for \<open>from\<close> in \<open>AddEdge\<close> fails with an error other than
  "key not found" (or the copy of the value read fails), \<open>AddEdge\<close> returns that error and
  stages no write: the database and the caller's transaction are as before the call.
\<close>

theorem AddEdge_read_failure:
  assumes "(txn_Get (scope db txn True) from = Inl err \<and> err \<noteq> ErrKeyNotFound)
         \<or> (\<exists>item. txn_Get (scope db txn True) from = Inr item
                   \<and> item_ValueCopy (scope db txn True) item = Inl err)"
  shows "AddEdge ord db from to txn = (Some err, db, txn)"
  using assms by (auto simp: AddEdge_def scope_def)

theorem AddEdge_read_failure_witness:
  "txn_Get (scope (emptyDB\<lparr>faults := noFaults\<lparr>getFault := (\<lambda>k. Some (EngineFailure ''io''))\<rparr>\<rparr>)
             None True) ''a'' = Inl (EngineFailure ''io'')
   \<and> EngineFailure ''io'' \<noteq> ErrKeyNotFound
   \<and> AddEdge id (emptyDB\<lparr>faults := noFaults\<lparr>getFault := (\<lambda>k. Some (EngineFailure ''io''))\<rparr>\<rparr>)
        ''a'' ''b'' None
      = (Some (EngineFailure ''io''),
         emptyDB\<lparr>faults := noFaults\<lparr>getFault := (\<lambda>k. Some (EngineFailure ''io''))\<rparr>\<rparr>, None)"
proof -
  have g: "txn_Get (scope (emptyDB\<lparr>faults := noFaults\<lparr>getFault := (\<lambda>k. Some (EngineFailure ''io''))\<rparr>\<rparr>)
             None True) ''a'' = Inl (EngineFailure ''io'')"
    by (simp add: txn_Get_def scope_def NewTransaction_def)
  show ?thesis
    using AddEdge_read_failure [of _ None "''a''" "EngineFailure ''io''" id "''b''"] g by simp
qed

text \<open>
  C3. Every successful \<open>AddEdge from to\<close> stages exactly one write, under the key \<open>from\<close>
  (in the caller's transaction; in its own transaction, which it then commits, so that the
  store changes at \<open>from\<close> only). The value written is an encoding of exactly the union of
  the destination set read in the transaction (empty if there was no record) and the
  singleton of \<open>to\<close>: each member once, followed by the delimiter. When \<open>to\<close> has no
  delimiter byte the value decodes to that union.
\<close>

theorem AddEdge_stages_one_write:
  assumes ro: "rangeOrder ord"
    and ok: "AddEdge ord db from to txn = (None, db', txn')"
  shows "\<exists>ks v. distinct ks
       \<and> set ks = insert to (members (edgesRead (scope db txn True) from))
       \<and> v = encode_keys ks
       \<and> (case txn of
            Some t \<Rightarrow> db' = db \<and> txn' = Some (t\<lparr>pendingWrites := pendingWrites t @ [(from, v)]\<rparr>)
          | None \<Rightarrow> txn' = None \<and> db' = db\<lparr>store := (store db)(from \<mapsto> v)\<rparr>)
       \<and> (CHR ''|'' \<notin> set to \<longrightarrow>
            members (DeserializeEdgeMap v)
              = insert to (members (edgesRead (scope db txn True) from)))"
proof -
  define pre where "pre = edgesRead (scope db txn True) from"
  define m where "m = AList.update to True pre"
  define ks where "ks = map fst (ord m)"
  have d: "distinct (map fst m)"
    unfolding m_def pre_def by (simp add: AList.distinct_update distinct_edgesRead)
  have f: "\<forall>(k, v)\<in>set m. v"
    using set_update_subset [of to True pre] values_edgesRead
    unfolding m_def pre_def by fastforce
  have keys: "fst ` set m = insert to (members pre)"
    unfolding m_def by (simp add: AList.dom_update pre_def members_edgesRead)
  have enc: "SerializeEdgeMap ord m = encode_keys ks" and dk: "distinct ks"
    and sk: "set ks = insert to (members pre)"
    using Serialize_all_flagged [OF ro d f] keys by (simp_all add: ks_def)
  have staged: "case txn of
            Some t \<Rightarrow> db' = db
              \<and> txn' = Some (t\<lparr>pendingWrites := pendingWrites t @ [(from, encode_keys ks)]\<rparr>)
          | None \<Rightarrow> txn' = None \<and> db' = db\<lparr>store := (store db)(from \<mapsto> encode_keys ks)\<rparr>"
    using AddEdge_success [OF ok] enc
    by (auto simp: m_def pre_def scope_def split: option.splits)
  have rt: "CHR ''|'' \<notin> set to \<longrightarrow> members (DeserializeEdgeMap (encode_keys ks))
              = insert to (members pre)"
  proof
    assume nd: "CHR ''|'' \<notin> set to"
    have "\<forall>k\<in>set ks. CHR ''|'' \<notin> set k"
      using sk nd keys_edgesRead_no_sep [of _ "scope db txn True" "from"]
      by (auto simp: pre_def members_edgesRead)
    then have "fields (encode_keys ks) = ks" by (rule fields_encode_keys_clean)
    then show "members (DeserializeEdgeMap (encode_keys ks)) = insert to (members pre)"
      using sk by (simp add: members_Deserialize keys_Deserialize)
  qed
  show ?thesis using dk sk staged rt unfolding pre_def by blast
qed

theorem AddEdge_stages_one_write_witness:
  "rangeOrder rev
   \<and> AddEdge rev (emptyDB\<lparr>store := [''a'' \<mapsto> ''b|'']\<rparr>) ''a'' ''c'' None
       = (None, emptyDB\<lparr>store := [''a'' \<mapsto> ''c|b|'']\<rparr>, None)
   \<and> CHR ''|'' \<notin> set ''c''
   \<and> members (edgesRead (scope (emptyDB\<lparr>store := [''a'' \<mapsto> ''b|'']\<rparr>) None True) ''a'') = {''b''}
   \<and> members (DeserializeEdgeMap ''c|b|'') = {''c'', ''b''}"
proof -
  have ro: "rangeOrder rev" by (simp add: rangeOrder_def)
  have ok: "AddEdge rev (emptyDB\<lparr>store := [''a'' \<mapsto> ''b|'']\<rparr>) ''a'' ''c'' None
       = (None, emptyDB\<lparr>store := [''a'' \<mapsto> ''c|b|'']\<rparr>, None)"
    by (simp add: AddEdge_def emptyDB_def noFaults_def NewTransaction_def txn_Get_def
        item_ValueCopy_def txn_Set_def txn_Commit_def DeserializeEdgeMap_def
        SerializeEdgeMap_def)
  have pre: "members (edgesRead (scope (emptyDB\<lparr>store := [''a'' \<mapsto> ''b|'']\<rparr>) None True) ''a'')
               = {''b''}"
    by (auto simp: members_def edgesRead_def scope_def NewTransaction_def txn_Get_def
        emptyDB_def noFaults_def DeserializeEdgeMap_def split: if_splits)
  obtain ks v where v: "emptyDB\<lparr>store := [''a'' \<mapsto> ''c|b|'']\<rparr>
           = emptyDB\<lparr>store := [''a'' \<mapsto> ''b|''], store := [''a'' \<mapsto> ''b|''](''a'' \<mapsto> v)\<rparr>"
    and m: "CHR ''|'' \<notin> set ''c'' \<longrightarrow> members (DeserializeEdgeMap v)
      = insert ''c'' (members (edgesRead (scope (emptyDB\<lparr>store := [''a'' \<mapsto> ''b|'']\<rparr>) None True) ''a''))"
    using AddEdge_stages_one_write [OF ro ok] by auto
  have "store (emptyDB\<lparr>store := [''a'' \<mapsto> ''c|b|'']\<rparr>) ''a''
      = store (emptyDB\<lparr>store := [''a'' \<mapsto> ''b|''], store := [''a'' \<mapsto> ''b|''](''a'' \<mapsto> v)\<rparr>) ''a''"
    using v by simp
  then have "v = ''c|b|''" by simp
  then have "members (DeserializeEdgeMap ''c|b|'') = {''c'', ''b''}" using m pre by simp
  then show ?thesis using ro ok pre by simp
qed

text \<open>
  C9. Every successful \<open>RemoveEdge from to\<close> stages exactly one write under the key \<open>from\<close>,
  whether or not \<open>to\<close> is a member of the set read: the value is an encoding of that set
  without \<open>to\<close>, and when \<open>to\<close> is not a member it decodes to the very set that was read.
  The caller's write set has grown by that write all the same; a transaction whose commit
  the engine would answer with a conflict, and which could not conflict while it had staged
  nothing, does conflict after the call.
\<close>

theorem RemoveEdge_stages_one_write:
  assumes ro: "rangeOrder ord"
    and ok: "RemoveEdge ord db from to txn = (None, db', txn')"
  shows "\<exists>ks v. distinct ks
       \<and> set ks = members (edgesRead (scope db txn True) from) - {to}
       \<and> v = encode_keys ks
       \<and> (\<exists>item. txn_Get (scope db txn True) from = Inr item)
       \<and> (case txn of
            Some t \<Rightarrow> db' = db
              \<and> txn' = Some (t\<lparr>pendingWrites := pendingWrites t @ [(from, v)]\<rparr>)
              \<and> (pendingWrites t = [] \<longrightarrow> fst (txn_Commit db t) \<noteq> Some ErrConflict)
              \<and> (commitFault (txnFaults t) = Some ErrConflict \<longrightarrow>
                   txn_Commit db (t\<lparr>pendingWrites := pendingWrites t @ [(from, v)]\<rparr>)
                     = (Some ErrConflict, db))
          | None \<Rightarrow> txn' = None \<and> db' = db\<lparr>store := (store db)(from \<mapsto> v)\<rparr>)
       \<and> (to \<notin> members (edgesRead (scope db txn True) from) \<longrightarrow>
            map_of (DeserializeEdgeMap v) = map_of (edgesRead (scope db txn True) from))"
proof -
  define pre where "pre = edgesRead (scope db txn True) from"
  define m where "m = AList.delete to pre"
  define ks where "ks = map fst (ord m)"
  have dp: "distinct (map fst pre)" unfolding pre_def by (rule distinct_edgesRead)
  have fp: "\<forall>(k, v)\<in>set pre. v" using values_edgesRead unfolding pre_def by fastforce
  have d: "distinct (map fst m)"
    unfolding m_def using dp by (rule AList.distinct_delete)
  have f: "\<forall>(k, v)\<in>set m. v"
    using set_delete_subset [of to pre] fp unfolding m_def by fastforce
  have "set (map fst m) = set (map fst pre) - {to}"
    unfolding m_def by (simp add: AList.delete_keys)
  then have keys: "fst ` set m = members pre - {to}"
    by (simp add: pre_def members_edgesRead)
  have enc: "SerializeEdgeMap ord m = encode_keys ks" and dk: "distinct ks"
    and sk: "set ks = members pre - {to}"
    using Serialize_all_flagged [OF ro d f] keys by (simp_all add: ks_def)
  have ex: "\<exists>item. txn_Get (scope db txn True) from = Inr item"
    using RemoveEdge_success [OF ok] by simp
  have staged: "case txn of
            Some t \<Rightarrow> db' = db
              \<and> txn' = Some (t\<lparr>pendingWrites := pendingWrites t @ [(from, encode_keys ks)]\<rparr>)
              \<and> (pendingWrites t = [] \<longrightarrow> fst (txn_Commit db t) \<noteq> Some ErrConflict)
              \<and> (commitFault (txnFaults t) = Some ErrConflict \<longrightarrow>
                   txn_Commit db (t\<lparr>pendingWrites := pendingWrites t @ [(from, encode_keys ks)]\<rparr>)
                     = (Some ErrConflict, db))
          | None \<Rightarrow> txn' = None \<and> db' = db\<lparr>store := (store db)(from \<mapsto> encode_keys ks)\<rparr>"
    using RemoveEdge_success [OF ok] enc
    by (auto simp: m_def pre_def scope_def txn_Commit_def split: option.splits)
  have rt: "to \<notin> members pre \<longrightarrow> map_of (DeserializeEdgeMap (encode_keys ks)) = map_of pre"
  proof
    assume nm: "to \<notin> members pre"
    have sk': "set ks = fst ` set pre"
      using sk nm by (simp add: pre_def members_edgesRead)
    have "\<forall>k\<in>set ks. CHR ''|'' \<notin> set k"
      using sk' keys_edgesRead_no_sep [of _ "scope db txn True" "from"]
      by (auto simp: pre_def)
    then have fi: "fields (encode_keys ks) = ks" by (rule fields_encode_keys_clean)
    show "map_of (DeserializeEdgeMap (encode_keys ks)) = map_of pre"
    proof
      fix k
      show "map_of (DeserializeEdgeMap (encode_keys ks)) k = map_of pre k"
        using map_of_all_flagged [OF dp fp, of k] by (simp add: map_of_Deserialize fi sk')
    qed
  qed
  show ?thesis using dk sk ex staged rt unfolding pre_def by blast
qed

theorem RemoveEdge_stages_one_write_witness:
  "rangeOrder id
   \<and> RemoveEdge id emptyDB ''a'' ''x''
        (Some \<lparr>snapshot = [''a'' \<mapsto> ''b|''], pendingWrites = [], readWrite = True,
               txnFaults = noFaults\<lparr>commitFault := Some ErrConflict\<rparr>\<rparr>)
      = (None, emptyDB,
         Some \<lparr>snapshot = [''a'' \<mapsto> ''b|''], pendingWrites = [(''a'', ''b|'')],
               readWrite = True, txnFaults = noFaults\<lparr>commitFault := Some ErrConflict\<rparr>\<rparr>)
   \<and> txn_Commit emptyDB
        \<lparr>snapshot = [''a'' \<mapsto> ''b|''], pendingWrites = [], readWrite = True,
         txnFaults = noFaults\<lparr>commitFault := Some ErrConflict\<rparr>\<rparr> = (None, emptyDB)
   \<and> txn_Commit emptyDB
        \<lparr>snapshot = [''a'' \<mapsto> ''b|''], pendingWrites = [(''a'', ''b|'')], readWrite = True,
         txnFaults = noFaults\<lparr>commitFault := Some ErrConflict\<rparr>\<rparr> = (Some ErrConflict, emptyDB)
   \<and> map_of (DeserializeEdgeMap ''b|'')
       = map_of (edgesRead (scope emptyDB
           (Some \<lparr>snapshot = [''a'' \<mapsto> ''b|''], pendingWrites = [], readWrite = True,
                  txnFaults = noFaults\<lparr>commitFault := Some ErrConflict\<rparr>\<rparr>) True) ''a'')"
proof -
  have ro: "rangeOrder id" by (simp add: rangeOrder_def)
  have ok: "RemoveEdge id emptyDB ''a'' ''x''
        (Some \<lparr>snapshot = [''a'' \<mapsto> ''b|''], pendingWrites = [], readWrite = True,
               txnFaults = noFaults\<lparr>commitFault := Some ErrConflict\<rparr>\<rparr>)
      = (None, emptyDB,
         Some \<lparr>snapshot = [''a'' \<mapsto> ''b|''], pendingWrites = [(''a'', ''b|'')],
               readWrite = True, txnFaults = noFaults\<lparr>commitFault := Some ErrConflict\<rparr>\<rparr>)"
    by (simp add: RemoveEdge_def noFaults_def txn_Get_def
        item_ValueCopy_def txn_Set_def DeserializeEdgeMap_def SerializeEdgeMap_def)
  have c0: "txn_Commit emptyDB
        \<lparr>snapshot = [''a'' \<mapsto> ''b|''], pendingWrites = [], readWrite = True,
         txnFaults = noFaults\<lparr>commitFault := Some ErrConflict\<rparr>\<rparr> = (None, emptyDB)"
    by (simp add: txn_Commit_def)
  have nm: "''x'' \<notin> members (edgesRead (scope emptyDB
           (Some \<lparr>snapshot = [''a'' \<mapsto> ''b|''], pendingWrites = [], readWrite = True,
                  txnFaults = noFaults\<lparr>commitFault := Some ErrConflict\<rparr>\<rparr>) True) ''a'')"
    by (simp add: members_def edgesRead_def scope_def txn_Get_def noFaults_def
        DeserializeEdgeMap_def)
  show ?thesis using RemoveEdge_stages_one_write [OF ro ok] ro ok c0 nm
    by (auto simp: txn_Commit_def)
qed

text \<open>
  C10. Representation invariant of the map type: every map that \<open>DeserializeEdgeMap\<close>
  produces, and so every map that \<open>GetEdges\<close> returns, maps each of its keys to true.
  \<open>SerializeEdgeMap\<close> skips the entries whose value is false: its output lists the keys of
  the flagged entries only, so that after a round trip (of a map whose flagged keys have no
  delimiter byte) exactly the flagged keys are present, and a key whose entry was false is
  absent.
\<close>

theorem flags_invariant:
  shows "(\<forall>(k, v)\<in>set (DeserializeEdgeMap bytes). v)
       \<and> (\<forall>n. fst (fst (GetEdges db from txn)) = Some n \<longrightarrow> (\<forall>(k, v)\<in>set n. v))
       \<and> SerializeEdgeMap ord m = encode_keys (map fst (filter snd (ord m)))
       \<and> (rangeOrder ord \<and> distinct (map fst m) \<and> (\<forall>(k, v)\<in>set m. v \<longrightarrow> CHR ''|'' \<notin> set k)
            \<longrightarrow> (\<forall>k. map_of (DeserializeEdgeMap (SerializeEdgeMap ord m)) k
                       = (if map_of m k = Some True then Some True else None)))"
proof -
  have a: "\<forall>(k, v)\<in>set (DeserializeEdgeMap bytes). v"
    using values_Deserialize by fastforce
  have b: "\<forall>n. fst (fst (GetEdges db from txn)) = Some n \<longrightarrow> (\<forall>(k, v)\<in>set n. v)"
  proof (intro allI impI)
    fix n
    assume "fst (fst (GetEdges db from txn)) = Some n"
    then have "GetEdges db from txn
                 = ((Some n, snd (fst (GetEdges db from txn))), snd (GetEdges db from txn))"
      by (metis prod.collapse)
    then have "n = edgesRead (scope db txn True) from"
      using GetEdges_success by blast
    then show "\<forall>(k, v)\<in>set n. v" using values_edgesRead by fastforce
  qed
  have c: "SerializeEdgeMap ord m = encode_keys (map fst (filter snd (ord m)))"
    using Serialize_encode [of ord m] by (simp add: flagged_def)
  have d: "rangeOrder ord \<and> distinct (map fst m) \<and> (\<forall>(k, v)\<in>set m. v \<longrightarrow> CHR ''|'' \<notin> set k)
            \<longrightarrow> (\<forall>k. map_of (DeserializeEdgeMap (SerializeEdgeMap ord m)) k
                       = (if map_of m k = Some True then Some True else None))"
  proof (intro allI impI)
    fix k
    assume h: "rangeOrder ord \<and> distinct (map fst m)
               \<and> (\<forall>(k, v)\<in>set m. v \<longrightarrow> CHR ''|'' \<notin> set k)"
    have st: "set (ord m) = set m" using h rangeOrder_set by blast
    have sf: "set (flagged (ord m)) = {k. (k, True) \<in> set m}"
      by (simp add: set_flagged st)
    have "\<forall>k\<in>set (flagged (ord m)). CHR ''|'' \<notin> set k"
      using h sf by auto
    then have "fields (SerializeEdgeMap ord m) = flagged (ord m)"
      by (simp add: Serialize_encode fields_encode_keys_clean)
    then have "map_of (DeserializeEdgeMap (SerializeEdgeMap ord m)) k
                 = (if (k, True) \<in> set m then Some True else None)"
      by (simp add: map_of_Deserialize sf)
    moreover have "(k, True) \<in> set m \<longleftrightarrow> map_of m k = Some True"
      using h by (auto dest: map_of_SomeD)
    ultimately show "map_of (DeserializeEdgeMap (SerializeEdgeMap ord m)) k
                       = (if map_of m k = Some True then Some True else None)"
      by simp
  qed
  show ?thesis using a b c d by blast
qed

theorem flags_invariant_witness:
  "rangeOrder rev \<and> distinct (map fst [(''b'', True), (''c'', False), (''d'', True)])
   \<and> CHR ''|'' \<notin> set ''b'' \<and> CHR ''|'' \<notin> set ''d''
   \<and> fst (fst (GetEdges (emptyDB\<lparr>store := [''a'' \<mapsto> ''d|b|'']\<rparr>) ''a'' None))
       = Some [(''d'', True), (''b'', True)]
   \<and> snd ` set (DeserializeEdgeMap ''d|b|'') = {True}
   \<and> SerializeEdgeMap rev [(''b'', True), (''c'', False), (''d'', True)] = ''d|b|''
   \<and> map_of (DeserializeEdgeMap
        (SerializeEdgeMap rev [(''b'', True), (''c'', False), (''d'', True)])) ''c'' = None"
proof -
  have ro: "rangeOrder rev" by (simp add: rangeOrder_def)
  have g: "fst (fst (GetEdges (emptyDB\<lparr>store := [''a'' \<mapsto> ''d|b|'']\<rparr>) ''a'' None))
       = Some [(''d'', True), (''b'', True)]"
    by (simp add: GetEdges_def emptyDB_def noFaults_def NewTransaction_def txn_Get_def
        item_ValueCopy_def txn_Commit_def DeserializeEdgeMap_def)
  have s: "SerializeEdgeMap rev [(''b'', True), (''c'', False), (''d'', True)] = ''d|b|''"
    by (simp add: SerializeEdgeMap_def)
  have h: "rangeOrder rev \<and> distinct (map fst [(''b'', True), (''c'', False), (''d'', True)])
   \<and> (\<forall>(k, v)\<in>set [(''b'', True), (''c'', False), (''d'', True)]. v \<longrightarrow> CHR ''|'' \<notin> set k)"
    using ro by simp
  have "\<forall>k. map_of (DeserializeEdgeMap
        (SerializeEdgeMap rev [(''b'', True), (''c'', False), (''d'', True)])) k
          = (if map_of [(''b'', True), (''c'', False), (''d'', True)] k = Some True
             then Some True else None)"
    using flags_invariant
      [of "''d|b|''" "emptyDB\<lparr>store := [''a'' \<mapsto> ''d|b|'']\<rparr>" "''a''" None rev
         "[(''b'', True), (''c'', False), (''d'', True)]"] h
    by blast
  then have "map_of (DeserializeEdgeMap
        (SerializeEdgeMap rev [(''b'', True), (''c'', False), (''d'', True)])) ''c''
          = (if map_of [(''b'', True), (''c'', False), (''d'', True)] ''c'' = Some True
             then Some True else None)"
    by (rule spec)
  then have t: "map_of (DeserializeEdgeMap
        (SerializeEdgeMap rev [(''b'', True), (''c'', False), (''d'', True)])) ''c'' = None"
    by simp
  have u: "snd ` set (DeserializeEdgeMap ''d|b|'') = {True}"
    by (simp add: DeserializeEdgeMap_def)
  show ?thesis using h g s t u by simp
qed

text \<open>
  C5. \<open>AddEdge\<close> is idempotent: after a successful \<open>AddEdge a b\<close>, a second \<open>AddEdge a b\<close>
  in sequence (in the same caller's transaction, or each call in a transaction of its own),
  whatever its outcome and whatever the orders in which the two calls encode, leaves
  \<open>GetEdges a\<close> with the same result as after the first call.
\<close>

theorem AddEdge_idempotent:
  assumes ro1: "rangeOrder ord1" and ro2: "rangeOrder ord2"
    and first: "AddEdge ord1 db a b txn = (None, db1, txn1)"
    and second: "AddEdge ord2 db1 a b txn1 = (r, db2, txn2)"
  shows "sameEdges (fst (GetEdges db2 a txn2)) (fst (GetEdges db1 a txn1))"
proof (cases r)
  case (Some e)
  then have "db2 = db1 \<and> txn2 = txn1" using second AddEdge_failure by blast
  then show ?thesis by (simp add: sameEdges_refl)
next
  case None
  define pre where "pre = edgesRead (scope db txn True) a"
  define m where "m = AList.update b True pre"
  define ks1 where "ks1 = map fst (ord1 m)"
  define v1 where "v1 = SerializeEdgeMap ord1 m"
  define t1 where "t1 = scope db1 txn1 True"
  define v2 where "v2 = SerializeEdgeMap ord2 (AList.update b True (edgesRead t1 a))"
  have d: "distinct (map fst m)"
    unfolding m_def pre_def by (simp add: AList.distinct_update distinct_edgesRead)
  have f: "\<forall>(k, v)\<in>set m. v"
    using set_update_subset [of b True pre] values_edgesRead
    unfolding m_def pre_def by fastforce
  have enc: "v1 = encode_keys ks1" and bk: "b \<in> set ks1"
    using Serialize_all_flagged [OF ro1 d f]
    by (simp_all add: v1_def ks1_def m_def AList.dom_update)
  have view1: "txnView t1 a = Some v1"
    using AddEdge_view [OF first] by (simp add: t1_def v1_def m_def pre_def)
  have s2: "AddEdge ord2 db1 a b txn1 = (None, db2, txn2)" using second None by simp
  have view2: "txnView (scope db2 txn2 True) a = Some v2"
    and fl: "txnFaults (scope db2 txn2 True) = txnFaults t1"
    and nn: "(txn2 = None) = (txn1 = None)"
    using AddEdge_view [OF s2] by (simp_all add: t1_def v2_def)
  show ?thesis
  proof (cases "getFault (txnFaults t1) a")
    case (Some e)
    then show ?thesis
      using GetEdges_same [of db2 txn2 db1 txn1 a] fl nn by (simp add: t1_def)
  next
    case None
    then have "edgesRead t1 a = DeserializeEdgeMap v1"
      by (simp add: edgesRead_view view1)
    then have "map_of (DeserializeEdgeMap v2) = map_of (DeserializeEdgeMap v1)"
      using readd_same [OF ro2 bk] by (simp add: v2_def enc)
    then show ?thesis
      using GetEdges_same [of db2 txn2 db1 txn1 a] fl nn view1 view2 by (simp add: t1_def)
  qed
qed

theorem AddEdge_idempotent_witness:
  "rangeOrder id \<and> rangeOrder rev
   \<and> AddEdge id (emptyDB\<lparr>store := [''a'' \<mapsto> ''c|'']\<rparr>) ''a'' ''b'' None
       = (None, emptyDB\<lparr>store := [''a'' \<mapsto> ''c|b|'']\<rparr>, None)
   \<and> AddEdge rev (emptyDB\<lparr>store := [''a'' \<mapsto> ''c|b|'']\<rparr>) ''a'' ''b'' None
       = (None, emptyDB\<lparr>store := [''a'' \<mapsto> ''b|c|'']\<rparr>, None)
   \<and> fst (GetEdges (emptyDB\<lparr>store := [''a'' \<mapsto> ''c|b|'']\<rparr>) ''a'' None)
       = (Some [(''c'', True), (''b'', True)], None)
   \<and> fst (GetEdges (emptyDB\<lparr>store := [''a'' \<mapsto> ''b|c|'']\<rparr>) ''a'' None)
       = (Some [(''b'', True), (''c'', True)], None)
   \<and> sameEdges (fst (GetEdges (emptyDB\<lparr>store := [''a'' \<mapsto> ''b|c|'']\<rparr>) ''a'' None))
                (fst (GetEdges (emptyDB\<lparr>store := [''a'' \<mapsto> ''c|b|'']\<rparr>) ''a'' None))"
proof -
  have ro1: "rangeOrder id" and ro2: "rangeOrder rev" by (simp_all add: rangeOrder_def)
  have first: "AddEdge id (emptyDB\<lparr>store := [''a'' \<mapsto> ''c|'']\<rparr>) ''a'' ''b'' None
       = (None, emptyDB\<lparr>store := [''a'' \<mapsto> ''c|b|'']\<rparr>, None)"
    by (simp add: AddEdge_def emptyDB_def noFaults_def NewTransaction_def txn_Get_def
        item_ValueCopy_def txn_Set_def txn_Commit_def DeserializeEdgeMap_def
        SerializeEdgeMap_def)
  have second: "AddEdge rev (emptyDB\<lparr>store := [''a'' \<mapsto> ''c|b|'']\<rparr>) ''a'' ''b'' None
       = (None, emptyDB\<lparr>store := [''a'' \<mapsto> ''b|c|'']\<rparr>, None)"
    by (simp add: AddEdge_def emptyDB_def noFaults_def NewTransaction_def txn_Get_def
        item_ValueCopy_def txn_Set_def txn_Commit_def DeserializeEdgeMap_def
        SerializeEdgeMap_def)
  have g1: "fst (GetEdges (emptyDB\<lparr>store := [''a'' \<mapsto> ''c|b|'']\<rparr>) ''a'' None)
       = (Some [(''c'', True), (''b'', True)], None)"
    by (simp add: GetEdges_def emptyDB_def noFaults_def NewTransaction_def txn_Get_def
        item_ValueCopy_def txn_Commit_def DeserializeEdgeMap_def)
  have g2: "fst (GetEdges (emptyDB\<lparr>store := [''a'' \<mapsto> ''b|c|'']\<rparr>) ''a'' None)
       = (Some [(''b'', True), (''c'', True)], None)"
    by (simp add: GetEdges_def emptyDB_def noFaults_def NewTransaction_def txn_Get_def
        item_ValueCopy_def txn_Commit_def DeserializeEdgeMap_def)
  show ?thesis
    using AddEdge_idempotent [OF ro1 ro2 first second] ro1 ro2 first second g1 g2 by blast
qed

text \<open>
  C6, as the code has it. For a source node \<open>a\<close> that has an adjacency record (\<open>GetEdges a\<close>
  returns the set \<open>m\<close>) and an identifier \<open>x\<close> that is not a member of \<open>m\<close>:
  whatever \<open>RemoveEdge a x\<close> returns, \<open>GetEdges a\<close> returns the same set afterwards; and
  \<open>RemoveEdge a x\<close> returns success exactly when the transaction is read-write, the engine
  accepts the write of the re-encoded set and, where the call owns its transaction, the
  engine accepts the commit. A call in the caller's transaction does not commit, so the
  outcome of a later commit has no part in it.
\<close>

theorem RemoveEdge_absent_member:
  assumes ro: "rangeOrder ord"
    and before: "fst (GetEdges db a txn) = (Some m, None)"
    and absent: "x \<notin> members m"
  shows "(\<forall>r db' txn'. RemoveEdge ord db a x txn = (r, db', txn') \<longrightarrow>
            sameEdges (fst (GetEdges db' a txn')) (Some m, None))
       \<and> (fst (RemoveEdge ord db a x txn) = None \<longleftrightarrow>
            readWrite (scope db txn True)
          \<and> setFault (txnFaults (scope db txn True)) a (SerializeEdgeMap ord m) = None
          \<and> (txn = None \<longrightarrow> commitFault (faults db) = None))"
proof -
  define t where "t = scope db txn True"
  have "GetEdges db a txn = ((Some m, None), snd (GetEdges db a txn))"
    using before by (metis prod.collapse)
  then have m: "m = edgesRead t a" and ex: "\<exists>item. txn_Get t a = Inr item"
    using GetEdges_success unfolding t_def by blast+
  obtain item where item: "txn_Get t a = Inr item" using ex by blast
  have gf: "getFault (txnFaults t) a = None"
    using item by (simp add: txn_Get_view split: option.splits)
  obtain v0 where v0: "txnView t a = Some v0"
    using item gf by (auto simp: txn_Get_view split: option.splits)
  have vf: "valueFault (txnFaults t) a = None"
    using before gf v0 unfolding GetEdges_view t_def [symmetric]
    by (simp split: option.splits if_splits)
  have iv: "item = \<lparr>itemKey = a, itemValue = v0\<rparr>"
    using item gf v0 by (simp add: txn_Get_view)
  have md: "m = DeserializeEdgeMap v0" by (simp add: m edgesRead_view gf v0)
  have dm: "distinct (map fst m)" unfolding m by (rule distinct_edgesRead)
  have cm: "\<forall>(k, v)\<in>set m. v \<and> CHR ''|'' \<notin> set k"
    using values_edgesRead [of _ _ t a] keys_edgesRead_no_sep [of _ t a]
    unfolding m by force
  have "x \<notin> fst ` set m" using absent by (simp add: m members_edgesRead)
  then have del: "AList.delete x m = m" by simp
  have del0: "AList.delete x (DeserializeEdgeMap v0) = m" using del md by simp
  have same: "\<forall>r db' txn'. RemoveEdge ord db a x txn = (r, db', txn') \<longrightarrow>
            sameEdges (fst (GetEdges db' a txn')) (Some m, None)"
  proof (intro allI impI)
    fix r db' txn'
    assume call: "RemoveEdge ord db a x txn = (r, db', txn')"
    show "sameEdges (fst (GetEdges db' a txn')) (Some m, None)"
    proof (cases r)
      case (Some e)
      then have "db' = db \<and> txn' = txn" using call RemoveEdge_failure by blast
      then show ?thesis using before by (simp add: sameEdges_refl)
    next
      case None
      then have ok: "RemoveEdge ord db a x txn = (None, db', txn')" using call by simp
      have view': "txnView (scope db' txn' True) a = Some (SerializeEdgeMap ord m)"
        and fl: "txnFaults (scope db' txn' True) = txnFaults (scope db txn True)"
        and nn: "(txn' = None) = (txn = None)"
        using RemoveEdge_view [OF ok] del by (simp_all add: t_def [symmetric] m [symmetric])
      have "map_of (DeserializeEdgeMap (SerializeEdgeMap ord m))
              = map_of (DeserializeEdgeMap v0)"
        using Deserialize_Serialize [OF ro dm cm] md by simp
      then have "sameEdges (fst (GetEdges db' a txn')) (fst (GetEdges db a txn))"
        using GetEdges_same [of db' txn' db txn a] fl nn view' v0 by (simp add: t_def)
      then show ?thesis using before by simp
    qed
  qed
  have succ: "fst (RemoveEdge ord db a x txn) = None \<longleftrightarrow>
            readWrite t \<and> setFault (txnFaults t) a (SerializeEdgeMap ord m) = None
          \<and> (txn = None \<longrightarrow> commitFault (faults db) = None)"
  proof (cases txn)
    case None
    then have tn: "t = NewTransaction db True" by (simp add: t_def scope_def)
    have rwt: "readWrite (NewTransaction db True)" by (simp add: NewTransaction_def)
    have pw: "pendingWrites (NewTransaction db True) = []" by (simp add: NewTransaction_def)
    show ?thesis
      using None item vf iv del0 rwt pw unfolding tn
      by (auto simp: RemoveEdge_def Let_def item_ValueCopy_def txn_Set_def txn_Commit_def
            txnFaults_NewTransaction
          split: option.splits)
  next
    case (Some t')
    then have tn: "t = t'" by (simp add: t_def scope_def)
    show ?thesis
      using Some item vf iv del0 unfolding tn
      by (auto simp: RemoveEdge_def Let_def item_ValueCopy_def txn_Set_def
          split: option.splits)
  qed
  show ?thesis using same succ unfolding t_def by blast
qed

theorem RemoveEdge_absent_member_witness:
  "rangeOrder rev
   \<and> fst (GetEdges (emptyDB\<lparr>store := [''a'' \<mapsto> ''b|c|'']\<rparr>) ''a'' None)
       = (Some [(''b'', True), (''c'', True)], None)
   \<and> ''x'' \<notin> members [(''b'', True), (''c'', True)]
   \<and> RemoveEdge rev (emptyDB\<lparr>store := [''a'' \<mapsto> ''b|c|'']\<rparr>) ''a'' ''x'' None
       = (None, emptyDB\<lparr>store := [''a'' \<mapsto> ''c|b|'']\<rparr>, None)
   \<and> fst (GetEdges (emptyDB\<lparr>store := [''a'' \<mapsto> ''c|b|'']\<rparr>) ''a'' None)
       = (Some [(''c'', True), (''b'', True)], None)
   \<and> sameEdges (fst (GetEdges (emptyDB\<lparr>store := [''a'' \<mapsto> ''c|b|'']\<rparr>) ''a'' None))
        (Some [(''b'', True), (''c'', True)], None)
   \<and> readWrite (scope (emptyDB\<lparr>store := [''a'' \<mapsto> ''b|c|'']\<rparr>) None True)
   \<and> setFault (txnFaults (scope (emptyDB\<lparr>store := [''a'' \<mapsto> ''b|c|'']\<rparr>) None True)) ''a''
        (SerializeEdgeMap rev [(''b'', True), (''c'', True)]) = None
   \<and> commitFault (faults (emptyDB\<lparr>store := [''a'' \<mapsto> ''b|c|'']\<rparr>)) = None
   \<and> fst (GetEdges emptyDB ''a''
        (Some \<lparr>snapshot = [''a'' \<mapsto> ''b|c|''], pendingWrites = [], readWrite = True,
               txnFaults = noFaults\<lparr>commitFault := Some ErrConflict\<rparr>\<rparr>))
       = (Some [(''b'', True), (''c'', True)], None)
   \<and> fst (RemoveEdge rev emptyDB ''a'' ''x''
        (Some \<lparr>snapshot = [''a'' \<mapsto> ''b|c|''], pendingWrites = [], readWrite = True,
               txnFaults = noFaults\<lparr>commitFault := Some ErrConflict\<rparr>\<rparr>)) = None"
proof -
  have ro: "rangeOrder rev" by (simp add: rangeOrder_def)
  have before: "fst (GetEdges (emptyDB\<lparr>store := [''a'' \<mapsto> ''b|c|'']\<rparr>) ''a'' None)
       = (Some [(''b'', True), (''c'', True)], None)"
    by (simp add: GetEdges_def emptyDB_def noFaults_def NewTransaction_def txn_Get_def
        item_ValueCopy_def txn_Commit_def DeserializeEdgeMap_def)
  have absent: "''x'' \<notin> members [(''b'', True), (''c'', True)]"
    by (simp add: members_def)
  have rw: "readWrite (scope (emptyDB\<lparr>store := [''a'' \<mapsto> ''b|c|'']\<rparr>) None True)"
    by (simp add: scope_def NewTransaction_def)
  have sf: "setFault (txnFaults (scope (emptyDB\<lparr>store := [''a'' \<mapsto> ''b|c|'']\<rparr>) None True)) ''a''
              (SerializeEdgeMap rev [(''b'', True), (''c'', True)]) = None"
    by (simp add: scope_def NewTransaction_def emptyDB_def noFaults_def)
  have cf: "commitFault (faults (emptyDB\<lparr>store := [''a'' \<mapsto> ''b|c|'']\<rparr>)) = None"
    by (simp add: emptyDB_def noFaults_def)
  have rm: "RemoveEdge rev (emptyDB\<lparr>store := [''a'' \<mapsto> ''b|c|'']\<rparr>) ''a'' ''x'' None
       = (None, emptyDB\<lparr>store := [''a'' \<mapsto> ''c|b|'']\<rparr>, None)"
    by (simp add: RemoveEdge_def emptyDB_def noFaults_def NewTransaction_def txn_Get_def
        item_ValueCopy_def txn_Set_def txn_Commit_def DeserializeEdgeMap_def
        SerializeEdgeMap_def)
  have after: "fst (GetEdges (emptyDB\<lparr>store := [''a'' \<mapsto> ''c|b|'']\<rparr>) ''a'' None)
       = (Some [(''c'', True), (''b'', True)], None)"
    by (simp add: GetEdges_def emptyDB_def noFaults_def NewTransaction_def txn_Get_def
        item_ValueCopy_def txn_Commit_def DeserializeEdgeMap_def)
  have same: "sameEdges (fst (GetEdges (emptyDB\<lparr>store := [''a'' \<mapsto> ''c|b|'']\<rparr>) ''a'' None))
        (Some [(''b'', True), (''c'', True)], None)"
    using RemoveEdge_absent_member [OF ro before absent] rm by blast
  have before2: "fst (GetEdges emptyDB ''a''
        (Some \<lparr>snapshot = [''a'' \<mapsto> ''b|c|''], pendingWrites = [], readWrite = True,
               txnFaults = noFaults\<lparr>commitFault := Some ErrConflict\<rparr>\<rparr>))
       = (Some [(''b'', True), (''c'', True)], None)"
    by (simp add: GetEdges_def noFaults_def txn_Get_def item_ValueCopy_def
        DeserializeEdgeMap_def)
  have "readWrite (scope emptyDB
        (Some \<lparr>snapshot = [''a'' \<mapsto> ''b|c|''], pendingWrites = [], readWrite = True,
               txnFaults = noFaults\<lparr>commitFault := Some ErrConflict\<rparr>\<rparr>) True)
      \<and> setFault (txnFaults (scope emptyDB
        (Some \<lparr>snapshot = [''a'' \<mapsto> ''b|c|''], pendingWrites = [], readWrite = True,
               txnFaults = noFaults\<lparr>commitFault := Some ErrConflict\<rparr>\<rparr>) True)) ''a''
          (SerializeEdgeMap rev [(''b'', True), (''c'', True)]) = None"
    by (simp add: scope_def noFaults_def)
  then have rm2: "fst (RemoveEdge rev emptyDB ''a'' ''x''
        (Some \<lparr>snapshot = [''a'' \<mapsto> ''b|c|''], pendingWrites = [], readWrite = True,
               txnFaults = noFaults\<lparr>commitFault := Some ErrConflict\<rparr>\<rparr>)) = None"
    using RemoveEdge_absent_member [OF ro before2 absent] by blast
  show ?thesis using ro before absent rm after same rw sf cf before2 rm2 by blast
qed

text \<open>
  C6, as the claim states it, fails: with a record present and \<open>x\<close> not a member,
  \<open>RemoveEdge\<close> in a transaction of its own still stages a write and commits it, and
  returns the conflict when the engine answers one to that commit.
\<close>

theorem RemoveEdge_absent_member_counterexample:
  "fst (GetEdges contendedDB ''a'' None) = (Some [(''b'', True), (''c'', True)], None)
   \<and> ''x'' \<notin> members [(''b'', True), (''c'', True)]
   \<and> RemoveEdge id contendedDB ''a'' ''x'' None = (Some ErrConflict, contendedDB, None)"
  by (simp add: GetEdges_def RemoveEdge_def contendedDB_def noFaults_def NewTransaction_def
      txn_Get_def item_ValueCopy_def txn_Set_def txn_Commit_def DeserializeEdgeMap_def
      SerializeEdgeMap_def members_def)



section \<open>Lemmas on the retry loop\<close>

lemma retryLoop_stop:
  "\<not> (err = Some ErrConflict \<and> i < 10) \<Longrightarrow> retryLoop ord world from to i err = (err, i, [])"
  by (subst retryLoop.simps) auto

lemma retryLoop_step:
  "err = Some ErrConflict \<Longrightarrow> i < 10 \<Longrightarrow>
   retryLoop ord world from to i err =
     (fst (retryLoop ord world from to (i + 1) (snd (attempt ord world from to i))),
      fst (snd (retryLoop ord world from to (i + 1) (snd (attempt ord world from to i)))),
      retryEvents ord world from to i
        @ snd (snd (retryLoop ord world from to (i + 1) (snd (attempt ord world from to i)))))"
  by (subst retryLoop.simps) (simp add: Let_def attempt_def retryEvents_def)

lemma retryLoop_char:
  "retryLoop ord world from to i err = (errF, n, evs) \<Longrightarrow>
     i \<le> n \<and> (i \<le> 10 \<longrightarrow> n \<le> 10)
   \<and> evs = concat (map (retryEvents ord world from to) [i..<n])
   \<and> (i < n \<longrightarrow> err = Some ErrConflict)
   \<and> (\<forall>k. i \<le> k \<and> Suc k < n \<longrightarrow> snd (attempt ord world from to k) = Some ErrConflict)
   \<and> errF = (if n = i then err else snd (attempt ord world from to (n - 1)))
   \<and> (n < 10 \<longrightarrow> errF \<noteq> Some ErrConflict)"
proof (induction "10 - i" arbitrary: i err errF n evs)
  case 0
  then have "\<not> (err = Some ErrConflict \<and> i < 10)" by simp
  then have "retryLoop ord world from to i err = (err, i, [])" by (rule retryLoop_stop)
  then show ?case using 0 by auto
next
  case (Suc m)
  show ?case
  proof (cases "err = Some ErrConflict \<and> i < 10")
    case False
    then have "retryLoop ord world from to i err = (err, i, [])" by (rule retryLoop_stop)
    then show ?thesis using Suc.prems False by auto
  next
    case True
    define err' where "err' = snd (attempt ord world from to i)"
    obtain errR nR evsR where rest: "retryLoop ord world from to (i + 1) err' = (errR, nR, evsR)"
      by (cases "retryLoop ord world from to (i + 1) err'") auto
    have m: "m = 10 - (i + 1)" using Suc.hyps(2) by simp
    note ih = Suc.hyps(1) [OF m rest]
    have eq: "errF = errR" "n = nR" "evs = retryEvents ord world from to i @ evsR"
      using Suc.prems retryLoop_step [of err i ord world "from" to] True rest
      by (simp_all add: err'_def)
    have le: "i < nR" using ih by simp
    have upt: "[i..<nR] = i # [i + 1..<nR]" using le by (simp add: upt_conv_Cons)
    have c1: "i \<le> n \<and> (i \<le> 10 \<longrightarrow> n \<le> 10)" using ih eq True by simp
    have c2: "evs = concat (map (retryEvents ord world from to) [i..<n])"
      using ih eq upt by simp
    have c3: "i < n \<longrightarrow> err = Some ErrConflict" using True by simp
    have c4: "\<forall>k. i \<le> k \<and> Suc k < n \<longrightarrow> snd (attempt ord world from to k) = Some ErrConflict"
    proof (intro allI impI)
      fix k assume k: "i \<le> k \<and> Suc k < n"
      show "snd (attempt ord world from to k) = Some ErrConflict"
      proof (cases "k = i")
        case True
        then have "i + 1 < nR" using k eq by simp
        then show ?thesis using ih True by (simp add: err'_def)
      next
        case False
        then have "i + 1 \<le> k \<and> Suc k < nR" using k eq by simp
        then show ?thesis using ih by blast
      qed
    qed
    have c5: "errF = (if n = i then err else snd (attempt ord world from to (n - 1)))"
    proof (cases "nR = i + 1")
      case True
      then have "errR = err'" using ih by simp
      then show ?thesis using eq True by (simp add: err'_def)
    next
      case False
      then have "errR = snd (attempt ord world from to (nR - 1))" using ih by simp
      then show ?thesis using eq le by simp
    qed
    have "nR < 10 \<longrightarrow> errR \<noteq> Some ErrConflict" using ih by blast
    then have c6: "n < 10 \<longrightarrow> errF \<noteq> Some ErrConflict" using eq by simp
    show ?thesis using c1 c2 c3 c4 c5 c6 by blast
  qed
qed

lemma steps_append: "steps k (xs @ ys) = steps k xs @ steps k ys"
  by (induction k xs rule: steps.induct) auto

lemma steps_retryEvents:
  "steps k (retryEvents ord world from to j) = (if j = k then [OpRemoveEdge] else [])"
  by (simp add: retryEvents_def)

lemma steps_retries:
  "steps k (concat (map (retryEvents ord world from to) [i..<n]))
     = (if i \<le> k \<and> k < n then [OpRemoveEdge] else [])"
proof (induction n)
  case 0
  show ?case by simp
next
  case (Suc n)
  show ?case
  proof (cases "i \<le> n")
    case True
    then show ?thesis using Suc by (auto simp: steps_append steps_retryEvents)
  next
    case False
    then show ?thesis by simp
  qed
qed

lemma steps_Discard: "steps k (map Discard_called ns) = []"
  by (induction ns) auto

lemma steps_Println: "steps k (case err of None \<Rightarrow> [] | Some e \<Rightarrow> [Println_error e]) = []"
  by (cases err) auto

lemma retryWorker_char:
  assumes run: "retryWorker ord world from to = (err, n, evs)"
  shows "1 \<le> n \<and> n \<le> 10
       \<and> (\<forall>k. Suc k < n \<longrightarrow> snd (attempt ord world from to k) = Some ErrConflict)
       \<and> err = snd (attempt ord world from to (n - 1))
       \<and> (n < 10 \<longrightarrow> err \<noteq> Some ErrConflict)
       \<and> evs = [NewTransaction_called 0, RemoveEdge_called 0 (fst (attempt ord world from to 0)),
                GetEdges_called 0 (firstRead ord world from to),
                Println_neighbors (fst (firstRead ord world from to)),
                Commit_called 0 (snd (attempt ord world from to 0))]
               @ concat (map (retryEvents ord world from to) [1..<n])
               @ (case err of None \<Rightarrow> [] | Some e \<Rightarrow> [Println_error e])
               @ map Discard_called (rev [0..<n])"
proof -
  define err0 where "err0 = snd (attempt ord world from to 0)"
  obtain errR nR evsR where rest: "retryLoop ord world from to 1 err0 = (errR, nR, evsR)"
    by (cases "retryLoop ord world from to 1 err0") auto
  have w: "retryWorker ord world from to =
      (errR, nR,
       [NewTransaction_called 0, RemoveEdge_called 0 (fst (attempt ord world from to 0)),
        GetEdges_called 0 (firstRead ord world from to),
        Println_neighbors (fst (firstRead ord world from to)),
        Commit_called 0 err0]
       @ evsR @ (case errR of None \<Rightarrow> [] | Some e \<Rightarrow> [Println_error e])
       @ map Discard_called (rev [0..<nR]))"
    using rest
    by (simp add: retryWorker_def Let_def attempt_def firstRead_def GetEdges_db err0_def)
  have eq: "err = errR" "n = nR"
    "evs = [NewTransaction_called 0, RemoveEdge_called 0 (fst (attempt ord world from to 0)),
        GetEdges_called 0 (firstRead ord world from to),
        Println_neighbors (fst (firstRead ord world from to)),
        Commit_called 0 err0]
       @ evsR @ (case errR of None \<Rightarrow> [] | Some e \<Rightarrow> [Println_error e])
       @ map Discard_called (rev [0..<nR])"
    using trans [OF run [symmetric] w] by auto
  note ch = retryLoop_char [OF rest]
  have c1: "1 \<le> n \<and> n \<le> 10" using ch eq by simp
  have c2: "\<forall>k. Suc k < n \<longrightarrow> snd (attempt ord world from to k) = Some ErrConflict"
  proof (intro allI impI)
    fix k assume k: "Suc k < n"
    show "snd (attempt ord world from to k) = Some ErrConflict"
    proof (cases k)
      case 0
      then have "1 < nR" using k eq by simp
      then have "err0 = Some ErrConflict" using ch by blast
      then show ?thesis using 0 by (simp add: err0_def)
    next
      case (Suc j)
      then have "1 \<le> k \<and> Suc k < nR" using k eq by simp
      then show ?thesis using ch by blast
    qed
  qed
  have c3: "err = snd (attempt ord world from to (n - 1))"
  proof (cases "nR = 1")
    case True
    then have "errR = err0" using ch by simp
    then show ?thesis using eq True by (simp add: err0_def)
  next
    case False
    then have "errR = snd (attempt ord world from to (nR - 1))" using ch by simp
    then show ?thesis using eq by simp
  qed
  have "nR < 10 \<longrightarrow> errR \<noteq> Some ErrConflict" using ch by blast
  then have c4: "n < 10 \<longrightarrow> err \<noteq> Some ErrConflict" using eq by simp
  have "evsR = concat (map (retryEvents ord world from to) [1..<nR])" using ch by blast
  then have c5: "evs = [NewTransaction_called 0, RemoveEdge_called 0 (fst (attempt ord world from to 0)),
                GetEdges_called 0 (firstRead ord world from to),
                Println_neighbors (fst (firstRead ord world from to)),
                Commit_called 0 (snd (attempt ord world from to 0))]
               @ concat (map (retryEvents ord world from to) [1..<n])
               @ (case err of None \<Rightarrow> [] | Some e \<Rightarrow> [Println_error e])
               @ map Discard_called (rev [0..<n])"
    using eq by (simp add: err0_def)
  show ?thesis using c1 c2 c3 c4 c5 by blast
qed

lemmas retry_eval = retryWorker_def Let_def RemoveEdge_def GetEdges_def NewTransaction_def
  txn_Get_def item_ValueCopy_def txn_Set_def txn_Commit_def DeserializeEdgeMap_def deref_def
  SerializeEdgeMap_def contendedDB_def graphDB_def noFaults_def contendedOnce_def
  contendedAlways_def attempt_def

section \<open>The retry discipline\<close>

text \<open>
  C4, as the code has it. In a run of the retry loop that opens \<open>n\<close> transactions: \<open>n\<close> is
  at least 1 and at most 10, so the commit is retried at most 9 times; every transaction
  but the last failed to commit with a conflict, and the loop stops before the tenth only
  on a commit that did not conflict; each retry opens a new transaction on the database of
  the moment and calls \<open>RemoveEdge\<close> in it (which reads the record again there), but not
  \<open>GetEdges\<close>, which only the first transaction calls; the final error is the one of the
  last commit, and it is printed; when all ten commits conflict the run ends with the
  conflict as its error, printed, after the tenth. The transactions are discarded when the
  goroutine returns, the last opened first.
\<close>

theorem retry_discipline:
  assumes run: "retryWorker ord world from to = (err, n, evs)"
  shows "1 \<le> n \<and> n \<le> 10
       \<and> (\<forall>k. Suc k < n \<longrightarrow> snd (attempt ord world from to k) = Some ErrConflict)
       \<and> err = snd (attempt ord world from to (n - 1))
       \<and> (n < 10 \<longrightarrow> err \<noteq> Some ErrConflict)
       \<and> steps 0 evs = [OpRemoveEdge, OpGetEdges]
       \<and> (\<forall>k. 0 < k \<and> k < n \<longrightarrow> steps k evs = [OpRemoveEdge])
       \<and> ((\<forall>k. k < 10 \<longrightarrow> snd (attempt ord world from to k) = Some ErrConflict) \<longrightarrow>
            n = 10 \<and> err = Some ErrConflict \<and> Println_error ErrConflict \<in> set evs)
       \<and> evs = [NewTransaction_called 0, RemoveEdge_called 0 (fst (attempt ord world from to 0)),
                GetEdges_called 0 (firstRead ord world from to),
                Println_neighbors (fst (firstRead ord world from to)),
                Commit_called 0 (snd (attempt ord world from to 0))]
               @ concat (map (retryEvents ord world from to) [1..<n])
               @ (case err of None \<Rightarrow> [] | Some e \<Rightarrow> [Println_error e])
               @ map Discard_called (rev [0..<n])"
proof -
  note ch = retryWorker_char [OF run]
  have n: "1 \<le> n \<and> n \<le> 10" using ch by blast
  have conf: "\<forall>k. Suc k < n \<longrightarrow> snd (attempt ord world from to k) = Some ErrConflict"
    using ch by blast
  have last: "err = snd (attempt ord world from to (n - 1))" using ch by blast
  have early: "n < 10 \<longrightarrow> err \<noteq> Some ErrConflict" using ch by blast
  have evs: "evs = [NewTransaction_called 0, RemoveEdge_called 0 (fst (attempt ord world from to 0)),
                GetEdges_called 0 (firstRead ord world from to),
                Println_neighbors (fst (firstRead ord world from to)),
                Commit_called 0 (snd (attempt ord world from to 0))]
               @ concat (map (retryEvents ord world from to) [1..<n])
               @ (case err of None \<Rightarrow> [] | Some e \<Rightarrow> [Println_error e])
               @ map Discard_called (rev [0..<n])"
    using ch by blast
  have s0: "steps 0 evs = [OpRemoveEdge, OpGetEdges]"
    unfolding evs by (simp add: steps_append steps_retries steps_Discard steps_Println)
  have sk: "\<forall>k. 0 < k \<and> k < n \<longrightarrow> steps k evs = [OpRemoveEdge]"
    unfolding evs by (simp add: steps_append steps_retries steps_Discard steps_Println)
  have ex: "(\<forall>k. k < 10 \<longrightarrow> snd (attempt ord world from to k) = Some ErrConflict) \<longrightarrow>
            n = 10 \<and> err = Some ErrConflict \<and> Println_error ErrConflict \<in> set evs"
  proof
    assume all: "\<forall>k. k < 10 \<longrightarrow> snd (attempt ord world from to k) = Some ErrConflict"
    have "n - 1 < 10" using n by arith
    then have e: "err = Some ErrConflict" using all last by simp
    then have "n = 10" using early n by auto
    moreover have "Println_error ErrConflict \<in> set evs" unfolding evs using e by simp
    ultimately show "n = 10 \<and> err = Some ErrConflict \<and> Println_error ErrConflict \<in> set evs"
      using e by simp
  qed
  show ?thesis using n conf last early s0 sk ex evs by blast
qed

theorem retry_discipline_witness:
  "retryWorker id contendedOnce ''a'' ''b''
     = (None, 2,
        [NewTransaction_called 0, RemoveEdge_called 0 None,
         GetEdges_called 0 (Some [(''c'', True)], None), Println_neighbors (Some [(''c'', True)]),
         Commit_called 0 (Some ErrConflict),
         Println_retry 1, NewTransaction_called 1, RemoveEdge_called 1 None, Commit_called 1 None,
         Discard_called 1, Discard_called 0])
   \<and> snd (attempt id contendedOnce ''a'' ''b'' 0) = Some ErrConflict
   \<and> snd (attempt id contendedOnce ''a'' ''b'' 1) = None
   \<and> steps 1
        [NewTransaction_called 0, RemoveEdge_called 0 None,
         GetEdges_called 0 (Some [(''c'', True)], None), Println_neighbors (Some [(''c'', True)]),
         Commit_called 0 (Some ErrConflict),
         Println_retry 1, NewTransaction_called 1, RemoveEdge_called 1 None, Commit_called 1 None,
         Discard_called 1, Discard_called 0] = [OpRemoveEdge]
   \<and> fst (retryWorker id contendedAlways ''a'' ''b'') = Some ErrConflict
   \<and> fst (snd (retryWorker id contendedAlways ''a'' ''b'')) = 10
   \<and> Println_error ErrConflict \<in> set (snd (snd (retryWorker id contendedAlways ''a'' ''b'')))"
proof -
  have once: "retryWorker id contendedOnce ''a'' ''b''
     = (None, 2,
        [NewTransaction_called 0, RemoveEdge_called 0 None,
         GetEdges_called 0 (Some [(''c'', True)], None), Println_neighbors (Some [(''c'', True)]),
         Commit_called 0 (Some ErrConflict),
         Println_retry 1, NewTransaction_called 1, RemoveEdge_called 1 None, Commit_called 1 None,
         Discard_called 1, Discard_called 0])"
    by (simp add: retry_eval retryLoop.simps upt_rec)
  have "Suc 0 < (2::nat)" by simp
  then have a0: "snd (attempt id contendedOnce ''a'' ''b'' 0) = Some ErrConflict"
    using retry_discipline [OF once] by blast
  have a1: "snd (attempt id contendedOnce ''a'' ''b'' 1) = None"
    using retry_discipline [OF once] by simp
  have "0 < (1::nat) \<and> (1::nat) < 2" by simp
  then have s1: "steps 1
        [NewTransaction_called 0, RemoveEdge_called 0 None,
         GetEdges_called 0 (Some [(''c'', True)], None), Println_neighbors (Some [(''c'', True)]),
         Commit_called 0 (Some ErrConflict),
         Println_retry 1, NewTransaction_called 1, RemoveEdge_called 1 None, Commit_called 1 None,
         Discard_called 1, Discard_called 0] = [OpRemoveEdge]"
    using retry_discipline [OF once] by blast
  have always: "retryWorker id contendedAlways ''a'' ''b''
     = (fst (retryWorker id contendedAlways ''a'' ''b''),
        fst (snd (retryWorker id contendedAlways ''a'' ''b'')),
        snd (snd (retryWorker id contendedAlways ''a'' ''b'')))"
    by simp
  have all: "\<forall>k. k < 10 \<longrightarrow> snd (attempt id contendedAlways ''a'' ''b'' k) = Some ErrConflict"
    by (simp add: retry_eval)
  have "fst (snd (retryWorker id contendedAlways ''a'' ''b'')) = 10
      \<and> fst (retryWorker id contendedAlways ''a'' ''b'') = Some ErrConflict
      \<and> Println_error ErrConflict \<in> set (snd (snd (retryWorker id contendedAlways ''a'' ''b'')))"
    using retry_discipline [OF always] all by blast
  then show ?thesis using once a0 a1 s1 by simp
qed

text \<open>
  C4, as the claim states it, fails: the retry does not re-execute every step of the
  operation. When the first commit conflicts and the second succeeds, the first
  transaction has run \<open>RemoveEdge\<close> and \<open>GetEdges\<close> and the retry has run \<open>RemoveEdge\<close>
  alone; and the failed transaction is discarded after the new one has been opened and
  committed, not before.
\<close>

theorem retry_not_every_step_counterexample:
  "snd (snd (retryWorker id contendedOnce ''a'' ''b''))
     = [NewTransaction_called 0, RemoveEdge_called 0 None,
        GetEdges_called 0 (Some [(''c'', True)], None), Println_neighbors (Some [(''c'', True)]),
        Commit_called 0 (Some ErrConflict),
        Println_retry 1, NewTransaction_called 1, RemoveEdge_called 1 None, Commit_called 1 None,
        Discard_called 1, Discard_called 0]
   \<and> steps 0 (snd (snd (retryWorker id contendedOnce ''a'' ''b''))) = [OpRemoveEdge, OpGetEdges]
   \<and> steps 1 (snd (snd (retryWorker id contendedOnce ''a'' ''b''))) = [OpRemoveEdge]
   \<and> steps 1 (snd (snd (retryWorker id contendedOnce ''a'' ''b'')))
       \<noteq> steps 0 (snd (snd (retryWorker id contendedOnce ''a'' ''b'')))"
  by (simp add: retry_eval retryLoop.simps upt_rec)

end
